theory Spec2Isabelle
  imports Main "HOL-Library.Sublist" "HOL-Library.List_Lexorder"
begin

section \<open>Python strings\<close>

text \<open>
  A Python \<open>str\<close> is a sequence of Unicode code points; \<open>len\<close>, indexing, iteration,
  comparison and \<open>sorted\<close> all work on code points.  A character is therefore modelled
  by its code point and a string by the list of its code points.  \<open>py ''abc''\<close> is the
  string with the code points of an ASCII literal.

  The mappings of \<open>str.upper\<close> and \<open>str.lower\<close> and the class \<open>str.isdigit\<close> are tables
  of the Unicode database.  They are given here for the code points below 256; a code
  point from 256 on is mapped to itself and is no digit.  \<open>str.upper\<close> maps a string
  character by character, and a character may become several (\<open>U+00DF\<close> becomes \<open>SS\<close>).
\<close>

type_synonym pychar = nat
type_synonym pystr = "pychar list"

abbreviation py :: "string \<Rightarrow> pystr" where
  "py s \<equiv> map of_char s"

definition upper_chars :: "pychar \<Rightarrow> pystr" where
  "upper_chars c =
     (if 97 \<le> c \<and> c \<le> 122 then [c - 32]
      else if c = 181 then [924]
      else if c = 223 then [83, 83]
      else if 224 \<le> c \<and> c \<le> 254 \<and> c \<noteq> 247 then [c - 32]
      else if c = 255 then [376]
      else [c])"

definition lower_chars :: "pychar \<Rightarrow> pystr" where
  "lower_chars c =
     (if (65 \<le> c \<and> c \<le> 90) \<or> (192 \<le> c \<and> c \<le> 222 \<and> c \<noteq> 215) then [c + 32]
      else [c])"

definition str_upper :: "pystr \<Rightarrow> pystr" where
  "str_upper s = concat (map upper_chars s)"

definition str_lower :: "pystr \<Rightarrow> pystr" where
  "str_lower s = concat (map lower_chars s)"

text \<open>\<open>s.startswith(p)\<close>\<close>

definition startswith :: "pystr \<Rightarrow> pystr \<Rightarrow> bool" where
  "startswith s p = prefix p s"

text \<open>
  \<open>s.find(ch, start)\<close> for a one-character \<open>ch\<close> and \<open>start \<ge> 0\<close>: the lowest index
  \<open>\<ge> start\<close> that holds \<open>ch\<close>, or \<open>-1\<close>.
\<close>

definition str_find :: "pystr \<Rightarrow> pychar \<Rightarrow> nat \<Rightarrow> int" where
  "str_find s ch start =
     (if ch \<in> set (drop start s)
      then int (start + length (takeWhile (\<lambda>c. c \<noteq> ch) (drop start s)))
      else - 1)"

section \<open>Configuration\<close>

text \<open>The module-level \<open>option_*\<close> variables, read once from the settings file.\<close>

record config =
  option_lexers :: pystr
  option_min_len :: int
  option_case_sens :: bool
  option_what_editors :: int
  option_max_lines :: int
  option_use_acp :: bool
  option_show_acp_first :: bool
  option_case_split :: bool
  option_underscore_split :: bool
  option_fuzzy :: bool

text \<open>The values the source reads when the settings file has no entry.\<close>

definition default_config :: config where
  "default_config =
     \<lparr>option_lexers = py ''-,ini files ^,markdown,restructuredtext,properties'',
      option_min_len = 3,
      option_case_sens = True,
      option_what_editors = 0,
      option_max_lines = 10000,
      option_use_acp = True,
      option_show_acp_first = False,
      option_case_split = False,
      option_underscore_split = False,
      option_fuzzy = True\<rparr>"

section \<open>Plain and fuzzy matching\<close>

definition is_plain_match :: "config \<Rightarrow> pystr \<Rightarrow> pystr \<Rightarrow> bool" where
  "is_plain_match cfg stext sfind =
     (if option_case_sens cfg then startswith stext sfind
      else startswith (str_upper stext) (str_upper sfind))"

text \<open>
  The loop of \<open>is_fuzzy_match\<close>: \<open>n\<close> is the index of the last character found
  (\<open>-1\<close> before the first), the second argument is what is left of \<open>sfind\<close>.
\<close>

fun fuzzy_loop :: "pystr \<Rightarrow> pystr \<Rightarrow> int \<Rightarrow> bool" where
  "fuzzy_loop stext [] n = True"
| "fuzzy_loop stext (ch # rest) n =
     (let n' = str_find stext ch (nat (n + 1))
      in if n' < 0 then False else fuzzy_loop stext rest n')"

definition is_fuzzy_match :: "pystr \<Rightarrow> pystr \<Rightarrow> bool" where
  "is_fuzzy_match stext sfind = fuzzy_loop (str_upper stext) (str_upper sfind) (- 1)"

section \<open>The strategy chain\<close>

text \<open>
  Exceptions of the source that the model can reach; \<open>ReError\<close> is the \<open>re.error\<close> that
  \<open>re.findall\<close> raises for a pattern it cannot compile.
\<close>

datatype error = IndexError | TypeError | ReError

text \<open>
  \<open>re.findall('.[^A-Z]*', s)\<close>: a match is one character other than a newline followed by
  the longest run of characters outside \<open>A\<close>..\<open>Z\<close>; the scan goes on after the match, and
  steps over a newline at which no match starts.
\<close>

definition is_AZ :: "pychar \<Rightarrow> bool" where
  "is_AZ c = (65 \<le> c \<and> c \<le> 90)"

function re_findall_case :: "pystr \<Rightarrow> pystr list" where
  "re_findall_case [] = []"
| "re_findall_case (c # cs) =
     (if c = 10 then re_findall_case cs
      else (c # takeWhile (\<lambda>d. \<not> is_AZ d) cs) # re_findall_case (dropWhile (\<lambda>d. \<not> is_AZ d) cs))"
  by pat_completeness auto
termination
  by (relation "measure length") (auto simp: length_dropWhile_le less_Suc_eq_le)

text \<open>\<open>re.findall('[^_]+', ss)\<close>: the maximal runs of characters other than \<open>_\<close>.\<close>

function re_findall_nonunderscore :: "pystr \<Rightarrow> pystr list" where
  "re_findall_nonunderscore [] = []"
| "re_findall_nonunderscore (c # cs) =
     (if c = 95 then re_findall_nonunderscore cs
      else (c # takeWhile (\<lambda>d. d \<noteq> 95) cs) # re_findall_nonunderscore (dropWhile (\<lambda>d. d \<noteq> 95) cs))"
  by pat_completeness auto
termination
  by (relation "measure length") (auto simp: length_dropWhile_le less_Suc_eq_le)

text \<open>\<open>s.strip(chars)\<close>\<close>

definition str_strip :: "pystr \<Rightarrow> pystr \<Rightarrow> pystr" where
  "str_strip s chars =
     rev (dropWhile (\<lambda>c. c \<in> set chars) (rev (dropWhile (\<lambda>c. c \<in> set chars) s)))"

text \<open>
  The first loop of \<open>spl_match\<close>: \<open>common_len\<close> ends as the number of leading positions at
  which \<open>begin\<close> and \<open>word\<close> agree.
\<close>

fun common_len :: "pystr \<Rightarrow> pystr \<Rightarrow> nat" where
  "common_len (b # bs) (w # ws) = (if b = w then Suc (common_len bs ws) else 0)"
| "common_len _ _ = 0"

text \<open>
  \<open>spl_match\<close> and its second loop.  \<open>spl_loop begin rest common_len i\<close> is the loop
  \<open>for i in range(common_len)\<close> from index \<open>i\<close> on, with \<open>rest = words[1:]\<close>.
  \<open>words[0]\<close> raises on an empty list.
\<close>

function spl_match :: "pystr \<Rightarrow> pystr list \<Rightarrow> error + bool"
  and spl_loop :: "pystr \<Rightarrow> pystr list \<Rightarrow> nat \<Rightarrow> nat \<Rightarrow> error + bool" where
  "spl_match begin [] = Inl IndexError"
| "spl_match begin (word # rest) =
     (let cl = common_len begin word
      in if cl > 0 then
           (if length begin = cl then Inr True
            else if length (word # rest) = 1 then Inr False
            else spl_loop begin rest cl 0)
         else Inr False)"
| "spl_loop begin rest cl i =
     (if i < cl then
        (case spl_match (drop (cl - i) begin) rest of
           Inl e \<Rightarrow> Inl e
         | Inr res \<Rightarrow> if res then Inr True else spl_loop begin rest cl (Suc i))
      else Inr False)"
  by pat_completeness auto
termination
  by (relation "measures
        [\<lambda>x. case x of Inl (b, ws) \<Rightarrow> 2 * length ws | Inr (b, rest, cl, i) \<Rightarrow> 2 * length rest + 1,
         \<lambda>x. case x of Inl _ \<Rightarrow> 0 | Inr (b, rest, cl, i) \<Rightarrow> cl - i]") auto

declare spl_loop.simps [simp del]

text \<open>
  Lines 81--91 of \<open>is_text_with_begin\<close>, the body of the case-split branch: true when
  \<open>return True\<close> is reached.
\<close>

definition case_split_path :: "pystr \<Rightarrow> pystr \<Rightarrow> bool" where
  "case_split_path s begin =
     (let searchwords = re_findall_case begin;
          wordwords = re_findall_case s;
          swl = length searchwords;
          wwl = length wordwords
      in swl \<le> wwl \<and> list_all (\<lambda>i. startswith (wordwords ! i) (searchwords ! i)) [0..<swl])"

text \<open>
  Lines 94--113, the body of the underscore-split branch.  The result is whether
  \<open>return True\<close> is reached, and the value of \<open>begin\<close> afterwards (the branch rebinds it to
  its lowercase form when matching is not case sensitive).  Every element of \<open>wordwords\<close> is
  a non-empty run, so \<open>wordwords[i][0]\<close> exists.
\<close>

definition underscore_split_path :: "config \<Rightarrow> pystr \<Rightarrow> pystr \<Rightarrow> error + (bool \<times> pystr)" where
  "underscore_split_path cfg s begin0 =
     (let ss0 = str_strip s (py ''_'')
      in if 95 \<in> set ss0 then
           (let begin = (if \<not> option_case_sens cfg then str_lower begin0 else begin0);
                ss = (if \<not> option_case_sens cfg then str_lower ss0 else ss0);
                wordwords = re_findall_nonunderscore ss;
                wwl = length wordwords;
                bl = length begin
            in if bl \<le> wwl \<and> list_all (\<lambda>i. begin ! i = (wordwords ! i) ! 0) [0..<bl]
               then Inr (True, begin)
               else (case spl_match begin wordwords of
                       Inl e \<Rightarrow> Inl e
                     | Inr res \<Rightarrow> Inr (res, begin)))
         else Inr (False, begin0))"

text \<open>Lines 115--118, the plain comparison that ends \<open>is_text_with_begin\<close>.\<close>

definition plain_tail :: "config \<Rightarrow> pystr \<Rightarrow> pystr \<Rightarrow> bool" where
  "plain_tail cfg s begin =
     (if option_case_sens cfg then startswith s begin
      else startswith (str_upper s) (str_upper begin))"

text \<open>\<open>s[0]\<close> and \<open>begin[0]\<close> raise on an empty string.\<close>

definition is_text_with_begin :: "config \<Rightarrow> pystr \<Rightarrow> pystr \<Rightarrow> error + bool" where
  "is_text_with_begin cfg s begin =
     (if option_fuzzy cfg then Inr (is_fuzzy_match s begin)
      else if option_case_split cfg \<or> option_underscore_split cfg then
        (if option_case_split cfg \<and> (s = [] \<or> begin = []) then Inl IndexError
         else if option_case_split cfg \<and> s ! 0 = begin ! 0 \<and> case_split_path s begin
         then Inr True
         else if option_underscore_split cfg then
           (case underscore_split_path cfg s begin of
              Inl e \<Rightarrow> Inl e
            | Inr (res, begin') \<Rightarrow> if res then Inr True else Inr (plain_tail cfg s begin'))
         else Inr (plain_tail cfg s begin))
      else Inr (plain_tail cfg s begin))"

section \<open>The scan pattern\<close>

text \<open>
  The module constant \<open>NONWORDS_DEFAULT\<close>: the characters
  \<^verbatim>\<open>- + * = / \ ( ) [ ] { } < > " ' . , : ; ~ ? ! @ # $ % ^ & | `\<close> and the horizontal
  ellipsis U+2026, in this order.
\<close>

definition NONWORDS_DEFAULT :: pystr where
  "NONWORDS_DEFAULT =
     py ''-+*=/'' @ [92] @ py ''()[]{}<>'' @ [34, 39] @ py ''.,:;~?!@#$%^&|'' @ [96, 8230]"

definition escape_regex :: "pystr \<Rightarrow> pystr" where
  "escape_regex s =
     concat (map (\<lambda>ch. if ch \<in> set (py ''$^#-+|.?*()[]{}'') then [92, ch] else [ch]) s)"

text \<open>\<open>str(n)\<close> for an integer: its decimal digits, with a minus sign when negative.\<close>

fun str_nat :: "nat \<Rightarrow> pystr" where
  "str_nat n = (if n < 10 then [48 + n] else str_nat (n div 10) @ [48 + n mod 10])"

declare str_nat.simps [simp del]

definition str_int :: "int \<Rightarrow> pystr" where
  "str_int i = (if i < 0 then 45 # str_nat (nat (- i)) else str_nat (nat i))"

text \<open>
  The locals \<open>w_content\<close> and \<open>repeats\<close> of \<open>get_regex\<close>, and the pattern it returns:
  \<^verbatim>\<open>\$?\b\<close>, the escaped \<open>begin\<close>, the character class and the quantifier
  \<^verbatim>\<open>{repeats,}\<close>.
\<close>

definition regex_w_content :: "pystr \<Rightarrow> pystr" where
  "regex_w_content nonwords =
     [92, 119] @ concat (map (\<lambda>ch. if ch \<notin> set nonwords then escape_regex [ch] else [])
                             NONWORDS_DEFAULT)"

definition regex_repeats :: "config \<Rightarrow> pystr \<Rightarrow> int" where
  "regex_repeats cfg begin = max 1 (option_min_len cfg - int (length begin))"

definition get_regex :: "config \<Rightarrow> pystr \<Rightarrow> pystr \<Rightarrow> pystr" where
  "get_regex cfg begin nonwords =
     [92] @ py ''$?'' @ [92] @ py ''b'' @ escape_regex begin
       @ py ''['' @ regex_w_content nonwords @ py '']{''
       @ str_int (regex_repeats cfg begin) @ py '',}''"

section \<open>The editor and its host\<close>

text \<open>
  What the source reads from an \<open>Editor\<close> object: the lexer properties, the tab title and
  the lines of the document.  \<open>get_prop(PROP_LEXER_FILE, '')\<close> may be \<open>None\<close>.
\<close>

record editor =
  ed_lexer_file :: "pystr option"
  ed_lexer_caret :: pystr
  ed_tab_title :: pystr
  ed_lines :: "pystr list"

text \<open>
  What the source reads from the application and the libraries: the editors of all tabs
  (\<open>Editor(h) for h in ed_handles()\<close>), the option \<open>nonword_chars\<close> for an editor and a lexer
  (\<open>appx.get_opt\<close>), the files of the \<open>autocomplete\<close> data directory, each by its name and
  as the list of lines that \<open>readlines\<close> gives, and \<open>re.findall\<close> for a pattern, a text and
  the flag \<open>re.I\<close>, which gives the list of matches or raises.
\<close>

record host =
  host_editors :: "editor list"
  host_nonword_chars :: "editor \<Rightarrow> pystr \<Rightarrow> pystr"
  host_acp_files :: "pystr \<rightharpoonup> pystr list"
  host_re_findall :: "pystr \<Rightarrow> pystr \<Rightarrow> bool \<Rightarrow> error + pystr list"

section \<open>The dictionary file\<close>

text \<open>\<open>str.isspace\<close> of one character, which is also the class \<^verbatim>\<open>\s\<close> of \<open>re\<close>.\<close>

definition isspace :: "pychar \<Rightarrow> bool" where
  "isspace c \<longleftrightarrow>
     (9 \<le> c \<and> c \<le> 13) \<or> (28 \<le> c \<and> c \<le> 32) \<or> c = 133 \<or> c = 160 \<or> c = 5760
     \<or> (8192 \<le> c \<and> c \<le> 8202) \<or> c = 8232 \<or> c = 8233 \<or> c = 8239 \<or> c = 8287
     \<or> c = 12288"

text \<open>\<open>s.rstrip()\<close>\<close>

definition str_rstrip :: "pystr \<Rightarrow> pystr" where
  "str_rstrip s = rev (dropWhile isspace (rev s))"

text \<open>\<open>s.replace(old, new)\<close> for a non-empty \<open>old\<close>, the only way the source calls it.\<close>

function str_replace :: "pystr \<Rightarrow> pystr \<Rightarrow> pystr \<Rightarrow> pystr" where
  "str_replace [] old new = []"
| "str_replace (c # cs) old new =
     (if old \<noteq> [] \<and> prefix old (c # cs)
      then new @ str_replace (drop (length old) (c # cs)) old new
      else c # str_replace cs old new)"
  by pat_completeness auto
termination
  by (relation "measure (\<lambda>(s, old, new). length s)") auto

text \<open>
  An entry of the dictionary is \<open>(pre, word, args, descr)\<close>.  \<open>acp_word\<close> is its word and
  \<open>acp_decode\<close> is line 263, which replaces \<open>%20\<close> in the word by a space.
\<close>

type_synonym acp_entry = "pystr \<times> pystr \<times> pystr \<times> pystr"

definition acp_word :: "acp_entry \<Rightarrow> pystr" where
  "acp_word e = (case e of (pre, word, args, descr) \<Rightarrow> word)"

definition acp_decode :: "acp_entry \<Rightarrow> acp_entry" where
  "acp_decode e =
     (case e of (pre, word, args, descr) \<Rightarrow>
        (pre, str_replace word (py ''%20'') (py '' ''), args, descr))"

text \<open>
  \<^verbatim>\<open>re.match('^([^\s]+)\s([^(| ]+)([^|]*)\|?(.*)?$', line)\<close> on a line that does not end
  with white space (the source passes \<open>line.rstrip()\<close>); the result holds the four groups.
  Group 1 is the longest run of characters that are not white space, and one white-space
  character has to follow it; group 2 is the longest run without \<open>(\<close>, \<open>|\<close> and space and
  has to be non-empty; group 3 goes up to the first \<open>|\<close>; group 4 is what follows that
  \<open>|\<close>.  The dot matches no newline, so there is no match when a newline follows the
  first \<open>|\<close>.
\<close>

definition re_match_acp :: "pystr \<Rightarrow> acp_entry option" where
  "re_match_acp line =
     (let g1 = takeWhile (\<lambda>c. \<not> isspace c) line;
          r1 = dropWhile (\<lambda>c. \<not> isspace c) line
      in if g1 = [] \<or> r1 = [] then None
         else
           (let r2 = tl r1;
                g2 = takeWhile (\<lambda>c. c \<notin> set (py ''(| '')) r2;
                r3 = dropWhile (\<lambda>c. c \<notin> set (py ''(| '')) r2;
                g3 = takeWhile (\<lambda>c. c \<noteq> 124) r3;
                r4 = dropWhile (\<lambda>c. c \<noteq> 124) r3;
                g4 = (if r4 = [] then [] else tl r4)
            in if g2 = [] \<or> 10 \<in> set g4 then None
               else Some (g1, g2, g3, g4)))"

text \<open>
  Lines 247--258 of \<open>get_acp_words\<close>: what one line of the file gives, \<open>None\<close> when the loop
  goes on to the next line, otherwise \<open>pre\<close>, \<open>word\<close>, \<open>args\<close> and \<open>descr\<close>.
\<close>

definition acp_parse_line :: "pystr \<Rightarrow> acp_entry option" where
  "acp_parse_line line0 =
     (let line = str_rstrip line0
      in if line = [] then None
         else (case re_match_acp line of
                 None \<Rightarrow> None
               | Some (g1, g2, g3, g4) \<Rightarrow> Some (g1, str_rstrip g2, g3, g4)))"

text \<open>\<open>fstr.format(pre, word, args, descr)\<close> with \<open>fstr = '{}|{}|{}' + chr(9) + '{}'\<close>\<close>

definition acp_format :: "acp_entry \<Rightarrow> pystr" where
  "acp_format e =
     (case e of (pre, word, args, descr) \<Rightarrow> pre @ py ''|'' @ word @ py ''|'' @ args @ [9] @ descr)"

text \<open>
  The loop over \<open>acp_lines\<close>.  The state is \<open>acp_words_plain\<close>, \<open>acp_words_fuzzy\<close> and the
  set \<open>words\<close>; an exception of \<open>is_text_with_begin\<close> ends the loop.
\<close>

fun acp_loop :: "config \<Rightarrow> pystr \<Rightarrow> pystr \<Rightarrow> pystr list
    \<Rightarrow> pystr list \<times> pystr list \<times> pystr set
    \<Rightarrow> error + (pystr list \<times> pystr list \<times> pystr set)" where
  "acp_loop cfg word1 target_word [] st = Inr st"
| "acp_loop cfg word1 target_word (line # acp_lines) (acp_words_plain, acp_words_fuzzy, words) =
     (case acp_parse_line line of
        None \<Rightarrow> acp_loop cfg word1 target_word acp_lines (acp_words_plain, acp_words_fuzzy, words)
      | Some (pre, word, args, descr) \<Rightarrow>
          if int (length word) < option_min_len cfg
          then acp_loop cfg word1 target_word acp_lines (acp_words_plain, acp_words_fuzzy, words)
          else
            (case is_text_with_begin cfg word word1 of
               Inl e \<Rightarrow> Inl e
             | Inr t \<Rightarrow>
                 if t \<and> word \<noteq> word1 \<and> word \<noteq> target_word then
                   (let word' = str_replace word (py ''%20'') (py '' '');
                        s = acp_format (pre, word', args, descr)
                    in if is_plain_match cfg word' word1
                       then acp_loop cfg word1 target_word acp_lines
                              (acp_words_plain @ [s], acp_words_fuzzy, insert word' words)
                       else acp_loop cfg word1 target_word acp_lines
                              (acp_words_plain, acp_words_fuzzy @ [s], insert word' words))
                 else acp_loop cfg word1 target_word acp_lines
                        (acp_words_plain, acp_words_fuzzy, words)))"

text \<open>
  Lines 226--235: the lines of \<open>lex + '.acp'\<close>, else of \<open>lex + '_.acp'\<close>, else nothing.
\<close>

definition read_acp_lines :: "host \<Rightarrow> editor \<Rightarrow> pystr list option" where
  "read_acp_lines h ed =
     (let lx = ed_lexer_caret ed
      in case host_acp_files h (lx @ py ''.acp'') of
           Some acp_lines \<Rightarrow> Some acp_lines
         | None \<Rightarrow> host_acp_files h (lx @ py ''_.acp''))"

text \<open>Lines 239--240: a first line that starts with \<open>#chars\<close> is deleted.\<close>

definition drop_chars_header :: "pystr list \<Rightarrow> pystr list" where
  "drop_chars_header acp_lines =
     (if length acp_lines > 0 \<and> startswith (acp_lines ! 0) (py ''#chars'')
      then tl acp_lines else acp_lines)"

definition get_acp_words :: "host \<Rightarrow> config \<Rightarrow> editor \<Rightarrow> pystr \<Rightarrow> pystr
    \<Rightarrow> error + (pystr list \<times> pystr set)" where
  "get_acp_words h cfg ed word1 word2 =
     (case read_acp_lines h ed of
        None \<Rightarrow> Inr ([], {})
      | Some acp_lines0 \<Rightarrow>
          (let target_word = word1 @ word2;
               acp_lines = drop_chars_header acp_lines0
           in case acp_loop cfg word1 target_word acp_lines ([], [], {}) of
                Inl e \<Rightarrow> Inl e
              | Inr (acp_words_plain, acp_words_fuzzy, words) \<Rightarrow>
                  Inr (acp_words_plain @ acp_words_fuzzy, words)))"

text \<open>
  The lines of the dictionary file that the loop of \<open>get_acp_words\<close> runs over (none
  when there is no file), and the entries of the file in the order of its lines: every
  line after the header that the loop parses, with its word decoded.
\<close>

definition acp_file_lines :: "host \<Rightarrow> editor \<Rightarrow> pystr list" where
  "acp_file_lines h ed =
     (case read_acp_lines h ed of
        None \<Rightarrow> []
      | Some acp_lines \<Rightarrow> drop_chars_header acp_lines)"

definition acp_file_entries :: "host \<Rightarrow> editor \<Rightarrow> acp_entry list" where
  "acp_file_entries h ed = map acp_decode (List.map_filter acp_parse_line (acp_file_lines h ed))"

text \<open>
  The tests of lines 260--262 on a parsed entry: true when the loop adds the entry to one
  of its two lists.  \<open>acp_kept_entries\<close> are the entries of the file that pass them, decoded,
  in the order of the lines.
\<close>

definition acp_keep :: "config \<Rightarrow> pystr \<Rightarrow> pystr \<Rightarrow> acp_entry \<Rightarrow> bool" where
  "acp_keep cfg word1 target_word e =
     (case e of (pre, word, args, descr) \<Rightarrow>
        \<not> int (length word) < option_min_len cfg
        \<and> is_text_with_begin cfg word word1 = Inr True
        \<and> word \<noteq> word1 \<and> word \<noteq> target_word)"

definition acp_kept_entries :: "host \<Rightarrow> config \<Rightarrow> editor \<Rightarrow> pystr \<Rightarrow> pystr \<Rightarrow> acp_entry list" where
  "acp_kept_entries h cfg ed word1 word2 =
     map acp_decode
       (filter (acp_keep cfg word1 (word1 @ word2))
          (List.map_filter acp_parse_line (acp_file_lines h ed)))"

section \<open>The completion request\<close>

text \<open>
  \<open>get_editors\<close> has a branch for each of the values 0, 1 and 2 of \<open>option_what_editors\<close>.
  For any other value no branch is taken: the function ends without \<open>return\<close> and the
  caller gets \<open>None\<close>.
\<close>

definition get_editors :: "config \<Rightarrow> host \<Rightarrow> editor \<Rightarrow> pystr \<Rightarrow> editor list option" where
  "get_editors cfg h ed lexer =
     (if option_what_editors cfg = 0 then Some [ed]
      else if option_what_editors cfg = 1 then Some (host_editors h)
      else if option_what_editors cfg = 2
      then Some (filter (\<lambda>e. ed_lexer_file e = Some lexer) (host_editors h))
      else None)"

text \<open>\<open>lex or '-'\<close> is \<open>'-'\<close> for the empty string; \<open>in\<close> is the substring test.\<close>

definition is_lexer_allowed :: "config \<Rightarrow> pystr \<Rightarrow> bool" where
  "is_lexer_allowed cfg lx =
     (sublist (py '',*,'') (py '','' @ option_lexers cfg @ py '','')
      \<or> sublist (py '','' @ str_lower (if lx = [] then py ''-'' else lx) @ py '','')
                 (py '','' @ str_lower (option_lexers cfg) @ py '',''))"

text \<open>\<open>isword\<close> is called with one character; \<open>nonwords\<close> is the module variable.\<close>

definition isword :: "pystr \<Rightarrow> pychar \<Rightarrow> bool" where
  "isword nonwords c = (c \<notin> set (py '' '' @ [9] @ nonwords))"

text \<open>\<open>ed.get_text_all()\<close>: the lines joined by newlines.\<close>

fun str_join :: "pystr \<Rightarrow> pystr list \<Rightarrow> pystr" where
  "str_join sep [] = []"
| "str_join sep [x] = x"
| "str_join sep (x # y # ys) = x @ sep @ str_join sep (y # ys)"

definition get_text_all :: "editor \<Rightarrow> pystr" where
  "get_text_all ed = str_join [10] (ed_lines ed)"

text \<open>
  \<open>list(set(l))\<close> holds every match once, in no specified order; the callers sort the
  list or test membership in it.  An exception of \<open>re.findall\<close> is not caught.
\<close>

definition get_words_list :: "config \<Rightarrow> host \<Rightarrow> editor \<Rightarrow> pystr \<Rightarrow> error + pystr list" where
  "get_words_list cfg h ed regex =
     (if int (length (ed_lines ed)) > option_max_lines cfg then Inr []
      else (case host_re_findall h regex (get_text_all ed) (\<not> option_case_sens cfg) of
              Inl e \<Rightarrow> Inl e
            | Inr l \<Rightarrow> Inr (remdups l)))"

text \<open>The two \<open>while\<close> loops of \<open>get_word\<close>, each returning the final \<open>x0\<close>.\<close>

function word_left :: "pystr \<Rightarrow> pystr \<Rightarrow> nat \<Rightarrow> nat" where
  "word_left nonwords s x0 =
     (if x0 > 0 \<and> isword nonwords (s ! (x0 - 1)) then word_left nonwords s (x0 - 1) else x0)"
  by pat_completeness auto
termination
  by (relation "measure (\<lambda>(nonwords, s, x0). x0)") auto

declare word_left.simps [simp del]

function word_right :: "pystr \<Rightarrow> pystr \<Rightarrow> nat \<Rightarrow> nat" where
  "word_right nonwords s x0 =
     (if x0 < length s \<and> isword nonwords (s ! x0) then word_right nonwords s (Suc x0) else x0)"
  by pat_completeness auto
termination
  by (relation "measure (\<lambda>(nonwords, s, x0). length s - x0)") auto

declare word_right.simps [simp del]

text \<open>The slice \<open>s[i:j]\<close> for \<open>0 \<le> i \<le> j \<le> len(s)\<close>.\<close>

definition slice :: "pystr \<Rightarrow> nat \<Rightarrow> nat \<Rightarrow> pystr" where
  "slice s i j = take (j - i) (drop i s)"

definition get_word :: "pystr \<Rightarrow> editor \<Rightarrow> int \<Rightarrow> int \<Rightarrow> (pystr \<times> pystr) option" where
  "get_word nonwords ed x y =
     (if \<not> (0 \<le> y \<and> y < int (length (ed_lines ed))) then None
      else
        (let s = ed_lines ed ! nat y
         in if \<not> (0 < x \<and> x \<le> int (length s)) then None
            else
              (let text1 = slice s (word_left nonwords s (nat x)) (nat x);
                   text2 = slice s (nat x) (word_right nonwords s (nat x))
               in Some (text1, text2))))"

text \<open>
  \<open>str.isdigit\<close> of one character: the ASCII digits and the superscripts two, three and
  one.
\<close>

definition isdigit :: "pychar \<Rightarrow> bool" where
  "isdigit c = ((48 \<le> c \<and> c \<le> 57) \<or> c = 178 \<or> c = 179 \<or> c = 185)"

text \<open>The inner functions \<open>search_tab\<close> and \<open>get_prefix\<close> of \<open>get_completions\<close>.\<close>

definition search_tab :: "config \<Rightarrow> pystr list list \<Rightarrow> pystr list \<Rightarrow> pystr \<Rightarrow> pystr" where
  "search_tab cfg words_by_tabs tab_titles w =
     (if option_what_editors cfg = 1 \<or> option_what_editors cfg = 2 then
        (let tabs_found = filter (\<lambda>i. w \<in> set (words_by_tabs ! i)) [0..<length words_by_tabs]
         in if tabs_found \<noteq> []
            then py ''|'' @ str_join (py ''; '') (map (\<lambda>tf. tab_titles ! tf) tabs_found)
            else [])
      else [])"

definition get_prefix :: "pystr \<Rightarrow> pystr" where
  "get_prefix w = (if startswith w (py ''$'') then py ''var'' else py ''text'')"

text \<open>Line 357, one element of \<open>words_decorated\<close>.\<close>

definition decorate :: "config \<Rightarrow> pystr list list \<Rightarrow> pystr list \<Rightarrow> pystr \<Rightarrow> pystr" where
  "decorate cfg words_by_tabs tab_titles w =
     get_prefix w @ py ''|'' @ w @ search_tab cfg words_by_tabs tab_titles w"

text \<open>A list comprehension whose condition may raise, and a loop whose body may raise.\<close>

fun filter_raise :: "('a \<Rightarrow> error + bool) \<Rightarrow> 'a list \<Rightarrow> error + 'a list" where
  "filter_raise p [] = Inr []"
| "filter_raise p (x # xs) =
     (case p x of
        Inl e \<Rightarrow> Inl e
      | Inr b \<Rightarrow>
          (case filter_raise p xs of
             Inl e \<Rightarrow> Inl e
           | Inr ys \<Rightarrow> Inr (if b then x # ys else ys)))"

fun map_raise :: "('a \<Rightarrow> error + 'b) \<Rightarrow> 'a list \<Rightarrow> error + 'b list" where
  "map_raise f [] = Inr []"
| "map_raise f (x # xs) =
     (case f x of
        Inl e \<Rightarrow> Inl e
      | Inr y \<Rightarrow>
          (case map_raise f xs of
             Inl e \<Rightarrow> Inl e
           | Inr ys \<Rightarrow> Inr (y # ys)))"

text \<open>
  \<open>get_completions\<close>, in two parts.  \<open>get_completions_words\<close> is the function up to line 355:
  its result is \<open>Inl\<close> for an exception, \<open>Inr None\<close> for a \<open>return\<close> without a value, and
  otherwise holds the locals \<open>words\<close> (as line 355 leaves it), \<open>words_by_tabs\<close>,
  \<open>tab_titles\<close>, \<open>acp_words\<close>, \<open>word1\<close> and \<open>word2\<close>.  \<open>get_completions\<close> adds lines 357 and
  358, which decorate the words and return the tuple.  Iterating over the \<open>None\<close> that
  \<open>get_editors\<close> may give raises \<open>TypeError\<close>.
\<close>

definition get_completions_words :: "host \<Rightarrow> config \<Rightarrow> editor \<Rightarrow> int \<Rightarrow> int \<Rightarrow> bool \<Rightarrow> bool
    \<Rightarrow> error + (pystr list \<times> pystr list list \<times> pystr list \<times> pystr list \<times> pystr \<times> pystr) option" where
  "get_completions_words h cfg ed_self x0 y0 with_acp ignore_lexer =
     (case ed_lexer_file ed_self of
        None \<Rightarrow> Inr None
      | Some lx \<Rightarrow>
          if \<not> ignore_lexer \<and> \<not> is_lexer_allowed cfg lx then Inr None
          else
            (let nonwords = host_nonword_chars h ed_self lx
             in case get_word nonwords ed_self x0 y0 of
                  None \<Rightarrow> Inr None
                | Some (word1, word2) \<Rightarrow>
                    if word1 = [] then Inr None
                    else if isdigit (word1 ! 0) then Inr None
                    else
                      (let regex = get_regex cfg [word1 ! 0] nonwords
                       in case get_editors cfg h ed_self lx of
                            None \<Rightarrow> Inl TypeError
                          | Some eds \<Rightarrow>
                              (case map_raise (\<lambda>e. get_words_list cfg h e regex) eds of
                                 Inl e \<Rightarrow> Inl e
                               | Inr words_by_tabs \<Rightarrow>
                                   (let tab_titles =
                                          map (\<lambda>e. str_replace (ed_tab_title e) (py ''|'') (py ''/''))
                                            eds;
                                        words0 = concat words_by_tabs;
                                        words1 = (if words0 \<noteq> [] then sort (remdups words0)
                                                  else words0)
                                    in case (if with_acp
                                             then get_acp_words h cfg ed_self word1 word2
                                             else Inr ([], {})) of
                                         Inl e \<Rightarrow> Inl e
                                       | Inr (acp_words, acp_set) \<Rightarrow>
                                           if words1 = [] \<and> acp_words = [] then Inr None
                                           else
                                             (let word1and2 = word1 @ word2;
                                                  words2 =
                                                    filter (\<lambda>w. w \<notin> acp_set \<and> w \<noteq> word1
                                                                \<and> w \<noteq> word1and2) words1
                                              in case filter_raise
                                                        (\<lambda>w. is_text_with_begin cfg w word1)
                                                        words2 of
                                                   Inl e \<Rightarrow> Inl e
                                                 | Inr words3 \<Rightarrow>
                                                     (let words_plain =
                                                            filter (\<lambda>w. is_plain_match cfg w word1)
                                                              words3;
                                                          words_fuzzy =
                                                            filter
                                                              (\<lambda>w. \<not> is_plain_match cfg w word1)
                                                              words3;
                                                          words = words_plain @ words_fuzzy
                                                      in Inr (Some (words, words_by_tabs,
                                                                    tab_titles, acp_words, word1,
                                                                    word2)))))))))"

definition get_completions :: "host \<Rightarrow> config \<Rightarrow> editor \<Rightarrow> int \<Rightarrow> int \<Rightarrow> bool \<Rightarrow> bool
    \<Rightarrow> error + (pystr list \<times> pystr list \<times> pystr \<times> pystr) option" where
  "get_completions h cfg ed_self x0 y0 with_acp ignore_lexer =
     (case get_completions_words h cfg ed_self x0 y0 with_acp ignore_lexer of
        Inl e \<Rightarrow> Inl e
      | Inr None \<Rightarrow> Inr None
      | Inr (Some (words, words_by_tabs, tab_titles, acp_words, word1, word2)) \<Rightarrow>
          (let words_decorated = map (decorate cfg words_by_tabs tab_titles) words
           in Inr (Some (words_decorated, acp_words, word1, word2))))"

section \<open>Example requests\<close>

text \<open>
  One tab with the lexer \<open>Markdown\<close> and the line \<open>please plenty pl\<close>, the cursor at
  the end of the line, the default \<open>nonword_chars\<close>, and a dictionary file \<open>Markdown.acp\<close>
  of five lines.  \<open>re.findall\<close> is given for the one pattern and text of this request: the
  pattern built for the first character \<open>p\<close> and the default minimum length 3 is
  \<^verbatim>\<open>\$?\bp[\w]{2,}\<close>, which matches \<open>please\<close> and \<open>plenty\<close> in the line.
\<close>

definition example_editor :: editor where
  "example_editor =
     \<lparr>ed_lexer_file = Some (py ''Markdown''),
      ed_lexer_caret = py ''Markdown'',
      ed_tab_title = py ''notes.md'',
      ed_lines = [py ''please plenty pl'']\<rparr>"

definition example_acp_lines :: "pystr list" where
  "example_acp_lines =
     [py ''#chars foobar'' @ [10],
      py ''^ foreach(x)|loop over x'' @ [10],
      py ''nospace'' @ [10],
      py ''f plot%20it(a, b)'' @ [10],
      py ''f aplenty'']"

definition example_host :: host where
  "example_host =
     \<lparr>host_editors = [example_editor],
      host_nonword_chars = (\<lambda>e lx. NONWORDS_DEFAULT),
      host_acp_files = [py ''Markdown.acp'' \<mapsto> example_acp_lines],
      host_re_findall =
        (\<lambda>regex text ignorecase.
           if regex = [92] @ py ''$?'' @ [92] @ py ''bp['' @ [92] @ py ''w]{2,}''
              \<and> text = py ''please plenty pl''
           then Inr [py ''please'', py ''plenty''] else Inr [])\<rparr>"

text \<open>
  A tab of one line without a dictionary file, and a host in which \<open>re.findall\<close> on that
  line gives, for each pattern of the table \<open>table\<close>, the tokens that the table has for it,
  and nothing for any other pattern or text.
\<close>

definition line_editor :: "pystr \<Rightarrow> editor" where
  "line_editor line =
     \<lparr>ed_lexer_file = Some (py ''Markdown''),
      ed_lexer_caret = py ''Markdown'',
      ed_tab_title = py ''notes.md'',
      ed_lines = [line]\<rparr>"

definition line_host :: "pystr \<Rightarrow> (pystr \<times> pystr list) list \<Rightarrow> host" where
  "line_host line table =
     \<lparr>host_editors = [line_editor line],
      host_nonword_chars = (\<lambda>e lx. NONWORDS_DEFAULT),
      host_acp_files = Map.empty,
      host_re_findall =
        (\<lambda>regex text ignorecase.
           if text = line
           then (case map_of table regex of None \<Rightarrow> Inr [] | Some tokens \<Rightarrow> Inr tokens)
           else Inr [])\<rparr>"

text \<open>
  A \<open>re.findall\<close> that is \<open>findall\<close> for the pattern \<open>pattern\<close> and raises for every other
  pattern.
\<close>

definition pattern_only :: "pystr \<Rightarrow> (pystr \<Rightarrow> pystr \<Rightarrow> bool \<Rightarrow> error + pystr list)
    \<Rightarrow> pystr \<Rightarrow> pystr \<Rightarrow> bool \<Rightarrow> error + pystr list" where
  "pattern_only pattern findall regex text ignorecase =
     (if regex = pattern then findall regex text ignorecase else Inl ReError)"

section \<open>Fuzzy matching is the subsequence relation\<close>

lemma subseq_Cons_skip:
  "ch \<in> set r \<Longrightarrow>
   subseq (ch # p) r \<longleftrightarrow> subseq p (drop (Suc (length (takeWhile (\<lambda>c. c \<noteq> ch) r))) r)"
proof (induction r)
  case Nil
  then show ?case by simp
next
  case (Cons x xs)
  show ?case
  proof (cases "x = ch")
    case True
    then show ?thesis by simp
  next
    case False
    with Cons.prems have "ch \<in> set xs" by simp
    with Cons.IH False show ?thesis by simp
  qed
qed

lemma subseq_Cons_notin: "ch \<notin> set r \<Longrightarrow> \<not> subseq (ch # p) r"
  by (induction r) auto

lemma fuzzy_loop_subseq:
  "- 1 \<le> n \<Longrightarrow> fuzzy_loop s p n \<longleftrightarrow> subseq p (drop (nat (n + 1)) s)"
proof (induction p arbitrary: n)
  case Nil
  then show ?case by simp
next
  case (Cons ch rest)
  let ?k = "nat (n + 1)"
  let ?r = "drop ?k s"
  show ?case
  proof (cases "ch \<in> set ?r")
    case False
    then show ?thesis
      by (simp add: str_find_def subseq_Cons_notin)
  next
    case True
    let ?n' = "int (?k + length (takeWhile (\<lambda>c. c \<noteq> ch) ?r))"
    have find: "str_find s ch ?k = ?n'"
      using True by (simp add: str_find_def)
    have "- 1 \<le> ?n'" by simp
    from Cons.IH [OF this]
    have "fuzzy_loop s rest ?n' \<longleftrightarrow>
          subseq rest (drop (Suc (length (takeWhile (\<lambda>c. c \<noteq> ch) ?r))) ?r)"
      by (simp add: nat_add_distrib add.commute)
    also have "\<dots> \<longleftrightarrow> subseq (ch # rest) ?r"
      using subseq_Cons_skip [OF True] by simp
    finally show ?thesis
      using find by (simp add: Let_def)
  qed
qed

lemma fuzzy_subseq: "is_fuzzy_match a b \<longleftrightarrow> subseq (str_upper b) (str_upper a)"
  using fuzzy_loop_subseq [of "- 1" "str_upper a" "str_upper b"]
  by (simp add: is_fuzzy_match_def)

text \<open>
  C1. The fuzzy predicate is the subsequence relation on the uppercased strings:
  \<open>is_fuzzy_match stext sfind\<close> holds exactly when the uppercased \<open>sfind\<close> is an in-order
  subsequence of the uppercased \<open>stext\<close>.  In particular \<open>fbb\<close> matches \<open>FooBarBaz\<close> and
  \<open>fbx\<close> does not.  The proof is about the loop alone (\<open>fuzzy_loop_subseq\<close> holds for any
  two strings), so it does not depend on what uppercasing does to a character.
\<close>

theorem is_fuzzy_match_iff_subseq:
  "(is_fuzzy_match stext sfind \<longleftrightarrow> subseq (str_upper sfind) (str_upper stext))
   \<and> is_fuzzy_match (py ''FooBarBaz'') (py ''fbb'')
   \<and> \<not> is_fuzzy_match (py ''FooBarBaz'') (py ''fbx'')"
proof -
  have e1: "is_fuzzy_match (py ''FooBarBaz'') (py ''fbb'')"
    by (simp add: fuzzy_subseq str_upper_def upper_chars_def)
  have e2: "\<not> is_fuzzy_match (py ''FooBarBaz'') (py ''fbx'')"
    by (simp add: fuzzy_subseq str_upper_def upper_chars_def)
  from fuzzy_subseq e1 e2 show ?thesis by blast
qed

text \<open>
  C10. Every plain match is a fuzzy match, whatever the case-sensitivity flag: a prefix
  is an in-order subsequence, and uppercasing both strings keeps it one.
\<close>

theorem plain_match_is_fuzzy_match:
  "is_plain_match cfg s p \<Longrightarrow> is_fuzzy_match s p"
proof -
  assume plain: "is_plain_match cfg s p"
  have "prefix (str_upper p) (str_upper s)"
  proof (cases "option_case_sens cfg")
    case True
    with plain have "prefix p s"
      by (simp add: is_plain_match_def startswith_def)
    then obtain r where "s = p @ r"
      by (auto elim: prefixE)
    then have "str_upper s = str_upper p @ str_upper r"
      by (simp add: str_upper_def)
    then show ?thesis
      by simp
  next
    case False
    with plain show ?thesis
      by (simp add: is_plain_match_def startswith_def)
  qed
  then have "subseq (str_upper p) (str_upper s)"
    by (rule prefix_imp_subseq)
  then show ?thesis
    by (simp add: fuzzy_subseq)
qed

theorem plain_match_is_fuzzy_match_witness:
  "is_plain_match (default_config\<lparr>option_case_sens := False\<rparr>) (py ''FooBarBaz'') (py ''foob'')
   \<and> is_fuzzy_match (py ''FooBarBaz'') (py ''foob'')"
proof -
  have h: "is_plain_match (default_config\<lparr>option_case_sens := False\<rparr>) (py ''FooBarBaz'') (py ''foob'')"
    by (simp add: is_plain_match_def default_config_def startswith_def str_upper_def upper_chars_def)
  from h plain_match_is_fuzzy_match [OF h] show ?thesis by simp
qed

section \<open>The strategy chain\<close>

text \<open>
  C2. With the fuzzy flag on, \<open>is_text_with_begin\<close> returns what \<open>is_fuzzy_match\<close>
  returns, for every candidate and prefix and whatever the case-split and
  underscore-split flags are: the fuzzy test comes first and its result is returned.
\<close>

theorem fuzzy_supersedes_chain:
  "option_fuzzy cfg \<Longrightarrow> is_text_with_begin cfg s begin = Inr (is_fuzzy_match s begin)"
  by (simp add: is_text_with_begin_def)

theorem fuzzy_supersedes_chain_witness:
  "option_fuzzy (default_config\<lparr>option_case_split := True, option_underscore_split := True\<rparr>)
   \<and> is_text_with_begin (default_config\<lparr>option_case_split := True, option_underscore_split := True\<rparr>)
        (py ''prop_lexer_file'') (py ''plx'')
      = Inr (is_fuzzy_match (py ''prop_lexer_file'') (py ''plx''))"
proof -
  have h: "option_fuzzy (default_config\<lparr>option_case_split := True, option_underscore_split := True\<rparr>)"
    by (simp add: default_config_def)
  from h fuzzy_supersedes_chain [OF h] show ?thesis by simp
qed

subsection \<open>The recursive underscore-split matcher\<close>

lemma common_len_lcp: "common_len b w = length (longest_common_prefix b w)"
  by (induction b w rule: common_len.induct) auto

lemma spl_no_error:
  "words \<noteq> [] \<longrightarrow> (\<exists>r. spl_match b words = Inr r)"
  and spl_loop_no_error: "rest \<noteq> [] \<longrightarrow> (\<exists>r. spl_loop b' rest cl i = Inr r)"
proof (induction b words and b' rest cl i rule: spl_match_spl_loop.induct)
  case (1 b)
  then show ?case by simp
next
  case (2 b word rest)
  show ?case
  proof (cases rest)
    case Nil
    then show ?thesis by (auto simp: Let_def)
  next
    case (Cons a list)
    with 2 show ?thesis by (auto simp: Let_def)
  qed
next
  case (3 b rest cl i)
  show ?case
  proof (intro impI)
    assume ne: "rest \<noteq> []"
    show "\<exists>r. spl_loop b rest cl i = Inr r"
    proof (cases "i < cl")
      case False
      then show ?thesis by (subst spl_loop.simps) auto
    next
      case True
      with 3(1) ne obtain r where r: "spl_match (drop (cl - i) b) rest = Inr r"
        by blast
      show ?thesis
      proof (cases r)
        case True
        with r \<open>i < cl\<close> show ?thesis by (subst spl_loop.simps) auto
      next
        case False
        with 3(2) [OF \<open>i < cl\<close> r] ne r \<open>i < cl\<close> show ?thesis
          by (subst spl_loop.simps) auto
      qed
    qed
  qed
qed

lemma spl_loop_ex:
  "rest \<noteq> [] \<Longrightarrow>
   spl_loop b rest cl i
   = Inr (\<exists>j. i \<le> j \<and> j < cl \<and> spl_match (drop (cl - j) b) rest = Inr True)"
proof (induction "cl - i" arbitrary: i)
  case 0
  then show ?case by (subst spl_loop.simps) auto
next
  case (Suc d)
  then have lt: "i < cl" by simp
  from Suc.prems spl_no_error [of rest "drop (cl - i) b"]
  obtain r where r: "spl_match (drop (cl - i) b) rest = Inr r"
    by blast
  show ?case
  proof (cases r)
    case True
    with r lt have "spl_loop b rest cl i = Inr True"
      by (subst spl_loop.simps) auto
    moreover from r True have "spl_match (drop (cl - i) b) rest = Inr True"
      by simp
    with lt have "\<exists>j. i \<le> j \<and> j < cl \<and> spl_match (drop (cl - j) b) rest = Inr True"
      by (intro exI [of _ i]) simp
    ultimately show ?thesis by simp
  next
    case False
    with r lt have "spl_loop b rest cl i = spl_loop b rest cl (Suc i)"
      by (subst spl_loop.simps) auto
    also from Suc have "\<dots> = Inr (\<exists>j. Suc i \<le> j \<and> j < cl
                                  \<and> spl_match (drop (cl - j) b) rest = Inr True)"
      by simp
    also have "(\<exists>j. Suc i \<le> j \<and> j < cl \<and> spl_match (drop (cl - j) b) rest = Inr True)
               \<longleftrightarrow> (\<exists>j. i \<le> j \<and> j < cl \<and> spl_match (drop (cl - j) b) rest = Inr True)"
    proof
      assume "\<exists>j. Suc i \<le> j \<and> j < cl \<and> spl_match (drop (cl - j) b) rest = Inr True"
      then show "\<exists>j. i \<le> j \<and> j < cl \<and> spl_match (drop (cl - j) b) rest = Inr True"
        by (meson Suc_leD)
    next
      assume "\<exists>j. i \<le> j \<and> j < cl \<and> spl_match (drop (cl - j) b) rest = Inr True"
      then obtain j where j: "i \<le> j" "j < cl" "spl_match (drop (cl - j) b) rest = Inr True"
        by blast
      from r False j(3) have "j \<noteq> i" by (cases "j = i") simp_all
      with j show "\<exists>j. Suc i \<le> j \<and> j < cl \<and> spl_match (drop (cl - j) b) rest = Inr True"
        by (intro exI [of _ j]) simp
    qed
    finally show ?thesis .
  qed
qed

lemma split_points_shift:
  "(\<exists>j. j < (n::nat) \<and> P (n - j)) \<longleftrightarrow> (\<exists>i\<in>{1..n}. P (n - i + 1))"
proof
  assume "\<exists>j. j < n \<and> P (n - j)"
  then obtain j where "j < n" "P (n - j)" by blast
  then have "Suc j \<in> {1..n}" "P (n - Suc j + 1)" by (simp_all add: Suc_diff_Suc)
  then show "\<exists>i\<in>{1..n}. P (n - i + 1)" by blast
next
  assume "\<exists>i\<in>{1..n}. P (n - i + 1)"
  then obtain i where "i \<in> {1..n}" "P (n - i + 1)" by blast
  then have "i - 1 < n" "P (n - (i - 1))" by (auto simp: Suc_diff_le)
  then show "\<exists>j. j < n \<and> P (n - j)" by blast
qed

text \<open>
  C3. For a non-empty prefix \<open>begin\<close> and a non-empty segment list \<open>words\<close>, \<open>spl_match\<close>
  returns without an exception, and its result is: with \<open>n\<close> the length of the longest
  common leading substring of \<open>begin\<close> and the first segment, false if \<open>n = 0\<close>; true if
  \<open>n\<close> is the length of \<open>begin\<close>; false if \<open>words\<close> has one segment; otherwise true exactly
  when, for some split point \<open>i\<close> from 1 up to \<open>n\<close>, the suffix of \<open>begin\<close> that starts after
  the character at offset \<open>n - i\<close> matches the remaining segments.  That suffix is
  \<open>begin[n-i+1:]\<close>; the source writes the same suffixes, in the same order, as
  \<open>begin[n-i:]\<close> for \<open>i\<close> from 0 up to \<open>n - 1\<close>.  In particular \<open>pl\<close> matches the segments
  \<open>prop\<close>, \<open>lexer\<close>, \<open>file\<close>: there \<open>n = 1\<close>, and the one split point gives the suffix \<open>l\<close>
  for \<open>lexer\<close>, \<open>file\<close>.
\<close>

theorem spl_match_behaviour:
  "(begin \<noteq> [] \<and> words \<noteq> [] \<longrightarrow>
      spl_match begin words =
        Inr (let n = length (longest_common_prefix begin (hd words))
             in if n = 0 then False
                else if n = length begin then True
                else if length words = 1 then False
                else (\<exists>i\<in>{1..n}. spl_match (drop (n - i + 1) begin) (tl words) = Inr True)))
   \<and> ((\<exists>i\<in>{1..m}. spl_match (drop (m - i + 1) begin) rest = Inr True)
        \<longleftrightarrow> (\<exists>i\<in>{0..<m}. spl_match (drop (m - i) begin) rest = Inr True))
   \<and> spl_match (py ''pl'') [py ''prop'', py ''lexer'', py ''file''] = Inr True"
proof (intro conjI impI)
  assume "begin \<noteq> [] \<and> words \<noteq> []"
  then obtain word rest where words: "words = word # rest"
    by (cases words) auto
  let ?n = "length (longest_common_prefix begin word)"
  show "spl_match begin words =
        Inr (let n = length (longest_common_prefix begin (hd words))
             in if n = 0 then False
                else if n = length begin then True
                else if length words = 1 then False
                else (\<exists>i\<in>{1..n}. spl_match (drop (n - i + 1) begin) (tl words) = Inr True))"
  proof (cases "?n = 0 \<or> ?n = length begin \<or> rest = []")
    case True
    then show ?thesis
      by (auto simp: words Let_def common_len_lcp)
  next
    case False
    then have "spl_match begin words = spl_loop begin rest ?n 0"
      by (simp add: words Let_def common_len_lcp)
    also from False have "\<dots> = Inr (\<exists>j. 0 \<le> j \<and> j < ?n
                                      \<and> spl_match (drop (?n - j) begin) rest = Inr True)"
      by (intro spl_loop_ex) simp
    also have "(\<exists>j. 0 \<le> j \<and> j < ?n \<and> spl_match (drop (?n - j) begin) rest = Inr True)
               \<longleftrightarrow> (\<exists>i\<in>{1..?n}. spl_match (drop (?n - i + 1) begin) rest = Inr True)"
      using split_points_shift [of ?n "\<lambda>k. spl_match (drop k begin) rest = Inr True"]
      by simp
    finally show ?thesis
      using False by (simp add: words Let_def)
  qed
next
  show "(\<exists>i\<in>{1..m}. spl_match (drop (m - i + 1) begin) rest = Inr True)
        \<longleftrightarrow> (\<exists>i\<in>{0..<m}. spl_match (drop (m - i) begin) rest = Inr True)"
    using split_points_shift [of m "\<lambda>k. spl_match (drop k begin) rest = Inr True"]
    by auto
next
  show "spl_match (py ''pl'') [py ''prop'', py ''lexer'', py ''file''] = Inr True"
    by (simp add: spl_loop.simps)
qed

theorem spl_match_behaviour_witness:
  "py ''pl'' \<noteq> [] \<and> [py ''prop'', py ''lexer'', py ''file''] \<noteq> []
   \<and> spl_match (py ''pl'') [py ''prop'', py ''lexer'', py ''file'']
       = Inr (\<exists>i\<in>{1..1}. spl_match (drop (1 - i + 1) (py ''pl'')) [py ''lexer'', py ''file''] = Inr True)"
proof -
  have ne: "py ''pl'' \<noteq> [] \<and> [py ''prop'', py ''lexer'', py ''file''] \<noteq> []"
    by simp
  have n: "length (longest_common_prefix (py ''pl'') (hd [py ''prop'', py ''lexer'', py ''file''])) = 1"
    by simp
  have tl: "tl [py ''prop'', py ''lexer'', py ''file''] = [py ''lexer'', py ''file'']"
    by simp
  have len: "length (py ''pl'') = 2" "length [py ''prop'', py ''lexer'', py ''file''] = 3"
    by simp_all
  from spl_match_behaviour [of "py ''pl''" "[py ''prop'', py ''lexer'', py ''file'']"] ne
  have "spl_match (py ''pl'') [py ''prop'', py ''lexer'', py ''file''] =
        Inr (let n = length (longest_common_prefix (py ''pl'') (hd [py ''prop'', py ''lexer'', py ''file'']))
             in if n = 0 then False
                else if n = length (py ''pl'') then True
                else if length [py ''prop'', py ''lexer'', py ''file''] = 1 then False
                else (\<exists>i\<in>{1..n}. spl_match (drop (n - i + 1) (py ''pl'')) (tl [py ''prop'', py ''lexer'', py ''file'']) = Inr True))"
    by blast
  then have "spl_match (py ''pl'') [py ''prop'', py ''lexer'', py ''file'']
       = Inr (\<exists>i\<in>{1..1}. spl_match (drop (1 - i + 1) (py ''pl'')) [py ''lexer'', py ''file''] = Inr True)"
    unfolding Let_def n tl len by (simp only: one_neq_zero numeral_eq_one_iff num.simps if_False one_eq_numeral_iff)
  with ne show ?thesis by blast
qed

subsection \<open>The case-split branch\<close>

lemma case_split_path_prefix:
  "case_split_path s b \<Longrightarrow> i < length (re_findall_case b) \<Longrightarrow>
   prefix (re_findall_case b ! i) (re_findall_case s ! i)"
  by (simp add: case_split_path_def Let_def list_all_iff startswith_def)

text \<open>
  C9. The case-split branch compares without case folding, whatever the case-sensitivity
  flag is.  With fuzzy and underscore-split off and case-split on, the result is true exactly
  when the first characters are equal and the case-split body accepts, or the plain
  comparison accepts; the case-split body does not read the flag, and when it accepts every
  prefix segment is a literal prefix of the candidate segment at the same index.  With
  case sensitivity off, \<open>PropLexerFile\<close> is rejected for the prefixes \<open>plF\<close> and \<open>pLF\<close>,
  although it is accepted for the same prefixes folded to upper case, \<open>PLF\<close>.
\<close>

theorem case_split_is_case_sensitive:
  "(\<not> option_fuzzy cfg \<and> option_case_split cfg \<and> \<not> option_underscore_split cfg
      \<and> s \<noteq> [] \<and> begin \<noteq> [] \<longrightarrow>
      is_text_with_begin cfg s begin
        = Inr ((s ! 0 = begin ! 0 \<and> case_split_path s begin) \<or> plain_tail cfg s begin))
   \<and> (case_split_path s begin \<longrightarrow>
        length (re_findall_case begin) \<le> length (re_findall_case s)
        \<and> (\<forall>i < length (re_findall_case begin).
              prefix (re_findall_case begin ! i) (re_findall_case s ! i)))
   \<and> \<not> option_case_sens
          (default_config\<lparr>option_case_sens := False, option_case_split := True, option_fuzzy := False\<rparr>)
   \<and> is_text_with_begin
         (default_config\<lparr>option_case_sens := False, option_case_split := True, option_fuzzy := False\<rparr>)
         (py ''PropLexerFile'') (py ''plF'') = Inr False
   \<and> is_text_with_begin
         (default_config\<lparr>option_case_sens := False, option_case_split := True, option_fuzzy := False\<rparr>)
         (py ''PropLexerFile'') (py ''pLF'') = Inr False
   \<and> str_upper (py ''plF'') = py ''PLF'' \<and> str_upper (py ''pLF'') = py ''PLF''
   \<and> is_text_with_begin
         (default_config\<lparr>option_case_sens := False, option_case_split := True, option_fuzzy := False\<rparr>)
         (py ''PropLexerFile'') (py ''PLF'') = Inr True"
proof (intro conjI impI allI)
  assume "\<not> option_fuzzy cfg \<and> option_case_split cfg \<and> \<not> option_underscore_split cfg
      \<and> s \<noteq> [] \<and> begin \<noteq> []"
  then show "is_text_with_begin cfg s begin
        = Inr ((s ! 0 = begin ! 0 \<and> case_split_path s begin) \<or> plain_tail cfg s begin)"
    by (auto simp: is_text_with_begin_def)
next
  assume "case_split_path s begin"
  then show "length (re_findall_case begin) \<le> length (re_findall_case s)"
    by (simp add: case_split_path_def Let_def)
next
  fix i
  assume "case_split_path s begin" "i < length (re_findall_case begin)"
  then show "prefix (re_findall_case begin ! i) (re_findall_case s ! i)"
    by (rule case_split_path_prefix)
next
  show "\<not> option_case_sens
          (default_config\<lparr>option_case_sens := False, option_case_split := True, option_fuzzy := False\<rparr>)"
    by simp
next
  show "is_text_with_begin
         (default_config\<lparr>option_case_sens := False, option_case_split := True, option_fuzzy := False\<rparr>)
         (py ''PropLexerFile'') (py ''plF'') = Inr False"
    by (simp add: is_text_with_begin_def default_config_def plain_tail_def startswith_def
          str_upper_def upper_chars_def)
next
  show "is_text_with_begin
         (default_config\<lparr>option_case_sens := False, option_case_split := True, option_fuzzy := False\<rparr>)
         (py ''PropLexerFile'') (py ''pLF'') = Inr False"
    by (simp add: is_text_with_begin_def default_config_def plain_tail_def startswith_def
          str_upper_def upper_chars_def)
next
  show "str_upper (py ''plF'') = py ''PLF''" "str_upper (py ''pLF'') = py ''PLF''"
    by (simp_all add: str_upper_def upper_chars_def)
next
  show "is_text_with_begin
         (default_config\<lparr>option_case_sens := False, option_case_split := True, option_fuzzy := False\<rparr>)
         (py ''PropLexerFile'') (py ''PLF'') = Inr True"
    by (simp add: is_text_with_begin_def default_config_def case_split_path_def startswith_def
          is_AZ_def)
qed

theorem case_split_is_case_sensitive_witness:
  "is_text_with_begin
     (default_config\<lparr>option_case_sens := False, option_case_split := True, option_fuzzy := False\<rparr>)
     (py ''PropLexerFile'') (py ''PLF'') = Inr True
   \<and> case_split_path (py ''PropLexerFile'') (py ''PLF'')
   \<and> prefix (re_findall_case (py ''PLF'') ! 2) (re_findall_case (py ''PropLexerFile'') ! 2)
   \<and> re_findall_case (py ''PLF'') ! 2 = py ''F''
   \<and> re_findall_case (py ''PropLexerFile'') ! 2 = py ''File''"
proof -
  let ?cfg = "default_config\<lparr>option_case_sens := False, option_case_split := True, option_fuzzy := False\<rparr>"
  let ?s = "py ''PropLexerFile''"
  let ?b = "py ''PLF''"
  note inst = case_split_is_case_sensitive [of ?cfg ?s ?b]
  have hyp: "\<not> option_fuzzy ?cfg \<and> option_case_split ?cfg \<and> \<not> option_underscore_split ?cfg
      \<and> ?s \<noteq> [] \<and> ?b \<noteq> []"
    by (simp add: default_config_def)
  have csp: "case_split_path ?s ?b"
    by (simp add: case_split_path_def startswith_def is_AZ_def)
  have segs: "re_findall_case ?b = [py ''P'', py ''L'', py ''F'']"
             "re_findall_case ?s = [py ''Prop'', py ''Lexer'', py ''File'']"
    by (simp_all add: is_AZ_def)
  from inst hyp have "is_text_with_begin ?cfg ?s ?b
        = Inr ((?s ! 0 = ?b ! 0 \<and> case_split_path ?s ?b) \<or> plain_tail ?cfg ?s ?b)"
    by blast
  with csp have r: "is_text_with_begin ?cfg ?s ?b = Inr True"
    by simp
  from inst csp have "\<forall>i < length (re_findall_case ?b).
              prefix (re_findall_case ?b ! i) (re_findall_case ?s ! i)"
    by blast
  then have p2: "prefix (re_findall_case ?b ! 2) (re_findall_case ?s ! 2)"
    unfolding segs by simp
  have e1: "re_findall_case ?b ! 2 = py ''F''"
    unfolding segs by simp
  have e2: "re_findall_case ?s ! 2 = py ''File''"
    unfolding segs by simp
  show ?thesis
    by (intro conjI r csp p2 e1 e2)
qed

section \<open>Parsing the dictionary file\<close>

lemmas acp_eval_defs = get_acp_words_def read_acp_lines_def drop_chars_header_def
  example_host_def example_editor_def example_acp_lines_def default_config_def
  startswith_def acp_parse_line_def str_rstrip_def isspace_def re_match_acp_def
  is_text_with_begin_def is_plain_match_def fuzzy_subseq str_upper_def upper_chars_def acp_format_def

lemma acp_loop_skip:
  "acp_parse_line line = None \<Longrightarrow>
   acp_loop cfg word1 target_word (line # acp_lines) st = acp_loop cfg word1 target_word acp_lines st"
  by (cases st) simp

lemma get_acp_words_header:
  assumes "read_acp_lines h ed = Some (header # acp_lines)" "startswith header (py ''#chars'')"
  shows "get_acp_words h cfg ed word1 word2 =
        (case acp_loop cfg word1 (word1 @ word2) acp_lines ([], [], {}) of
           Inl e \<Rightarrow> Inl e
         | Inr (p, f, ws) \<Rightarrow> Inr (p @ f, ws))"
  using assms by (simp add: get_acp_words_def drop_chars_header_def)

text \<open>
  C7. When the first line of the dictionary file starts with \<open>#chars\<close>, \<open>get_acp_words\<close>
  returns what its loop gives on the lines after the first: the header gives no entry.
  The line \<^verbatim>\<open>^ foreach(x)|loop over x\<close> is parsed into the prefix \<open>^\<close>, the word
  \<open>foreach\<close>, the arguments \<open>(x)\<close> and the description \<open>loop over x\<close>.  A line that the
  pattern does not match leaves the state of the loop as it is, and the loop goes on with
  the next line.  In the example file the header \<^verbatim>\<open>#chars foobar\<close> matches the pattern,
  and the loop run on all five lines with the typed prefix \<open>fo\<close> would add the entry
  \<^verbatim>\<open>#chars|foobar|\<close>; \<open>get_acp_words\<close> returns the one entry of the \<open>foreach\<close> line.
\<close>

theorem acp_parsing:
  "(read_acp_lines h ed = Some (header # acp_lines) \<and> startswith header (py ''#chars'') \<longrightarrow>
      get_acp_words h cfg ed word1 word2 =
        (case acp_loop cfg word1 (word1 @ word2) acp_lines ([], [], {}) of
           Inl e \<Rightarrow> Inl e
         | Inr (p, f, ws) \<Rightarrow> Inr (p @ f, ws)))
   \<and> acp_parse_line (py ''^ foreach(x)|loop over x'')
       = Some (py ''^'', py ''foreach'', py ''(x)'', py ''loop over x'')
   \<and> (re_match_acp (str_rstrip line) = None \<longrightarrow>
        acp_loop cfg word1 target_word (line # acp_lines) st
        = acp_loop cfg word1 target_word acp_lines st)
   \<and> acp_parse_line (py ''#chars foobar'' @ [10]) = Some (py ''#chars'', py ''foobar'', [], [])
   \<and> acp_loop default_config (py ''fo'') (py ''fo'') example_acp_lines ([], [], {})
       = Inr ([py ''#chars|foobar|'' @ [9], py ''^|foreach|(x)'' @ [9] @ py ''loop over x''], [],
              {py ''foreach'', py ''foobar''})
   \<and> get_acp_words example_host default_config example_editor (py ''fo'') []
       = Inr ([py ''^|foreach|(x)'' @ [9] @ py ''loop over x''], {py ''foreach''})"
proof (intro conjI impI)
  assume a: "read_acp_lines h ed = Some (header # acp_lines) \<and> startswith header (py ''#chars'')"
  show "get_acp_words h cfg ed word1 word2 =
        (case acp_loop cfg word1 (word1 @ word2) acp_lines ([], [], {}) of
           Inl e \<Rightarrow> Inl e
         | Inr (p, f, ws) \<Rightarrow> Inr (p @ f, ws))"
    by (rule get_acp_words_header [OF conjunct1 [OF a] conjunct2 [OF a]])
next
  show "acp_parse_line (py ''^ foreach(x)|loop over x'')
       = Some (py ''^'', py ''foreach'', py ''(x)'', py ''loop over x'')"
    by (simp add: acp_parse_line_def str_rstrip_def isspace_def re_match_acp_def)
next
  assume "re_match_acp (str_rstrip line) = None"
  then have "acp_parse_line line = None"
    by (simp add: acp_parse_line_def Let_def)
  then show "acp_loop cfg word1 target_word (line # acp_lines) st
        = acp_loop cfg word1 target_word acp_lines st"
    by (rule acp_loop_skip)
next
  show "acp_parse_line (py ''#chars foobar'' @ [10]) = Some (py ''#chars'', py ''foobar'', [], [])"
    by (simp add: acp_parse_line_def str_rstrip_def isspace_def re_match_acp_def)
next
  show "acp_loop default_config (py ''fo'') (py ''fo'') example_acp_lines ([], [], {})
       = Inr ([py ''#chars|foobar|'' @ [9], py ''^|foreach|(x)'' @ [9] @ py ''loop over x''], [],
              {py ''foreach'', py ''foobar''})"
    by (simp add: acp_eval_defs)
next
  show "get_acp_words example_host default_config example_editor (py ''fo'') []
       = Inr ([py ''^|foreach|(x)'' @ [9] @ py ''loop over x''], {py ''foreach''})"
    by (simp add: acp_eval_defs)
qed

theorem acp_parsing_witness:
  "read_acp_lines example_host example_editor
     = Some ((py ''#chars foobar'' @ [10]) # tl example_acp_lines)
   \<and> startswith (py ''#chars foobar'' @ [10]) (py ''#chars'')
   \<and> get_acp_words example_host default_config example_editor (py ''fo'') [] =
        (case acp_loop default_config (py ''fo'') (py ''fo'' @ []) (tl example_acp_lines) ([], [], {}) of
           Inl e \<Rightarrow> Inl e
         | Inr (p, f, ws) \<Rightarrow> Inr (p @ f, ws))
   \<and> re_match_acp (str_rstrip (py ''nospace'' @ [10])) = None
   \<and> acp_loop default_config (py ''fo'') (py ''fo'') [py ''nospace'' @ [10]] ([], [], {})
       = Inr ([], [], {})"
proof -
  have h1: "read_acp_lines example_host example_editor
     = Some ((py ''#chars foobar'' @ [10]) # tl example_acp_lines)"
    by (simp add: read_acp_lines_def example_host_def example_editor_def example_acp_lines_def)
  have h2: "startswith (py ''#chars foobar'' @ [10]) (py ''#chars'')"
    by (simp add: startswith_def)
  have h3: "re_match_acp (str_rstrip (py ''nospace'' @ [10])) = None"
    by (simp add: str_rstrip_def isspace_def re_match_acp_def)
  note inst = acp_parsing [of example_host example_editor "py ''#chars foobar'' @ [10]"
      "tl example_acp_lines" default_config "py ''fo''" "[]"]
  from inst h1 h2 have c1: "get_acp_words example_host default_config example_editor (py ''fo'') [] =
        (case acp_loop default_config (py ''fo'') (py ''fo'' @ []) (tl example_acp_lines) ([], [], {}) of
           Inl e \<Rightarrow> Inl e
         | Inr (p, f, ws) \<Rightarrow> Inr (p @ f, ws))"
    by blast
  note inst' = acp_parsing [of example_host example_editor "py ''#chars foobar'' @ [10]" "[]"
      default_config "py ''fo''" "[]" "py ''nospace'' @ [10]" "py ''fo''" "([], [], {})"]
  from inst' h3 have "acp_loop default_config (py ''fo'') (py ''fo'') [py ''nospace'' @ [10]] ([], [], {})
      = acp_loop default_config (py ''fo'') (py ''fo'') [] ([], [], {})"
    by blast
  then have c2: "acp_loop default_config (py ''fo'') (py ''fo'') [py ''nospace'' @ [10]] ([], [], {})
      = Inr ([], [], {})"
    by simp
  show ?thesis
    by (intro conjI h1 h2 c1 h3 c2)
qed

section \<open>The example request, evaluated\<close>

lemmas regex_eval_defs = get_regex_def regex_w_content_def NONWORDS_DEFAULT_def escape_regex_def
  regex_repeats_def str_int_def default_config_def str_nat.simps

lemma example_lexfile: "ed_lexer_file example_editor = Some (py ''Markdown'')"
  by (simp add: example_editor_def)

lemma example_nonwords:
  "host_nonword_chars example_host example_editor (py ''Markdown'') = NONWORDS_DEFAULT"
  by (simp add: example_host_def)

lemma example_lexer:
  "is_lexer_allowed default_config (py ''Markdown'') = True"
  "is_lexer_allowed (default_config\<lparr>option_what_editors := 3\<rparr>) (py ''Markdown'') = True"
  by (simp_all add: is_lexer_allowed_def default_config_def sublist_code str_lower_def lower_chars_def)

lemma example_word: "get_word NONWORDS_DEFAULT example_editor 16 0 = Some (py ''pl'', [])"
  by (simp add: get_word_def example_editor_def slice_def NONWORDS_DEFAULT_def isword_def
        word_right.simps word_left.simps)

lemma example_word1: "py ''pl'' \<noteq> []" "isdigit (py ''pl'' ! 0) = False"
  by (simp_all add: isdigit_def)

lemma example_regex:
  "get_regex default_config [py ''pl'' ! 0] NONWORDS_DEFAULT
   = [92] @ py ''$?'' @ [92] @ py ''bp['' @ [92] @ py ''w]{2,}''"
  by (simp add: regex_eval_defs)

lemma example_editors:
  "get_editors default_config example_host example_editor (py ''Markdown'')
   = Some [example_editor]"
  "get_editors (default_config\<lparr>option_what_editors := 3\<rparr>) example_host example_editor (py ''Markdown'')
   = None"
  by (simp_all add: get_editors_def default_config_def)

lemma example_text: "get_text_all example_editor = py ''please plenty pl''"
  by (simp add: get_text_all_def example_editor_def)

lemma example_words_list:
  "get_words_list default_config example_host example_editor
     ([92] @ py ''$?'' @ [92] @ py ''bp['' @ [92] @ py ''w]{2,}'')
   = Inr [py ''please'', py ''plenty'']"
  unfolding get_words_list_def example_text
  by (simp add: example_host_def example_editor_def default_config_def)

lemma example_title:
  "str_replace (ed_tab_title example_editor) (py ''|'') (py ''/'') = py ''notes.md''"
  by (simp add: example_editor_def)

lemma example_acp:
  "get_acp_words example_host default_config example_editor (py ''pl'') []
   = Inr ([py ''f|plot it|(a, b)'' @ [9], py ''f|aplenty|'' @ [9]], {py ''plot it'', py ''aplenty''})"
  by (simp add: acp_eval_defs insert_commute)

lemma example_sort:
  "sort (remdups [py ''please'', py ''plenty'']) = [py ''please'', py ''plenty'']"
  by simp

lemma example_filter:
  "filter_raise (\<lambda>w. is_text_with_begin default_config w (py ''pl''))
     [py ''please'', py ''plenty''] = Inr [py ''please'', py ''plenty'']"
  by (simp add: is_text_with_begin_def default_config_def fuzzy_subseq
        str_upper_def upper_chars_def)

lemma example_plain:
  "is_plain_match default_config (py ''please'') (py ''pl'')"
  "is_plain_match default_config (py ''plenty'') (py ''pl'')"
  "is_plain_match default_config (py ''plot it'') (py ''pl'')"
  "\<not> is_plain_match default_config (py ''aplenty'') (py ''pl'')"
  by (simp_all add: is_plain_match_def default_config_def startswith_def)

lemma example_decorate:
  "decorate default_config wbt tt (py ''please'') = py ''text|please''"
  "decorate default_config wbt tt (py ''plenty'') = py ''text|plenty''"
  by (simp_all add: decorate_def get_prefix_def search_tab_def startswith_def default_config_def)

lemmas example_stages = example_lexfile example_nonwords example_lexer example_word example_word1
  example_regex example_editors example_words_list example_title example_acp example_sort
  example_filter example_plain

lemma example_words_result:
  "get_completions_words example_host default_config example_editor 16 0 True False
   = Inr (Some ([py ''please'', py ''plenty''], [[py ''please'', py ''plenty'']], [py ''notes.md''],
                [py ''f|plot it|(a, b)'' @ [9], py ''f|aplenty|'' @ [9]], py ''pl'', []))"
  by (simp add: get_completions_words_def Let_def example_stages [simplified])

lemma example_result:
  "get_completions example_host default_config example_editor 16 0 True False
   = Inr (Some ([py ''text|please'', py ''text|plenty''],
                [py ''f|plot it|(a, b)'' @ [9], py ''f|aplenty|'' @ [9]], py ''pl'', []))"
  by (simp add: get_completions_def example_words_result [simplified] example_decorate [simplified])

text \<open>
  C8 fails on the source.  The setting \<open>what_editors\<close> is read with \<open>int\<close> and may be any
  integer; for a value other than 0, 1 and 2 \<open>get_editors\<close> returns \<open>None\<close>, and the loop
  \<open>for e in get_editors(ed_self, lex)\<close> of \<open>get_completions\<close> raises \<open>TypeError\<close>.  Here the
  example request is run with \<open>what_editors = 3\<close>.
\<close>

theorem get_completions_raises:
  "get_completions example_host (default_config\<lparr>option_what_editors := 3\<rparr>) example_editor 16 0
     True False
   = Inl TypeError"
  by (simp add: get_completions_def get_completions_words_def Let_def example_stages [simplified])

section \<open>What a request returns\<close>

lemma filter_raise_Inr:
  "filter_raise p xs = Inr ys \<Longrightarrow> ys = filter (\<lambda>x. p x = Inr True) xs"
proof (induction xs arbitrary: ys)
  case Nil
  then show ?case by simp
next
  case (Cons x xs)
  from Cons.prems obtain b zs where b: "p x = Inr b" and zs: "filter_raise p xs = Inr zs"
    and ys: "ys = (if b then x # zs else zs)"
    by (auto split: sum.splits)
  from Cons.IH [OF zs] have "zs = filter (\<lambda>x. p x = Inr True) xs" .
  with b ys show ?case by auto
qed

lemma word_left_le: "word_left nw s x \<le> x"
proof (induction nw s x rule: word_left.induct)
  case (1 nw s x0)
  show ?case
  proof (cases "x0 > 0 \<and> isword nw (s ! (x0 - 1))")
    case True
    with 1 have "word_left nw s (x0 - 1) \<le> x0 - 1" by simp
    with True show ?thesis by (subst word_left.simps) auto
  next
    case False
    then show ?thesis by (subst word_left.simps) auto
  qed
qed

lemma word_left_isword:
  "word_left nw s x \<le> i \<Longrightarrow> i < x \<Longrightarrow> isword nw (s ! i)"
proof (induction nw s x rule: word_left.induct)
  case (1 nw s x0)
  show ?case
  proof (cases "x0 > 0 \<and> isword nw (s ! (x0 - 1))")
    case True
    then have eq: "word_left nw s x0 = word_left nw s (x0 - 1)"
      by (subst word_left.simps) auto
    show ?thesis
    proof (cases "i = x0 - 1")
      case True
      with \<open>x0 > 0 \<and> isword nw (s ! (x0 - 1))\<close> show ?thesis by simp
    next
      case False
      with "1.prems" have "i < x0 - 1" by simp
      with 1 True eq show ?thesis by simp
    qed
  next
    case False
    then have "word_left nw s x0 = x0"
      by (subst word_left.simps) auto
    with "1.prems" show ?thesis by simp
  qed
qed

lemma word_right_bounds: "x \<le> length s \<Longrightarrow> x \<le> word_right nw s x \<and> word_right nw s x \<le> length s"
proof (induction nw s x rule: word_right.induct)
  case (1 nw s x0)
  show ?case
  proof (cases "x0 < length s \<and> isword nw (s ! x0)")
    case True
    with 1 have "Suc x0 \<le> word_right nw s (Suc x0) \<and> word_right nw s (Suc x0) \<le> length s"
      by simp
    with True show ?thesis by (subst (1 2) word_right.simps) auto
  next
    case False
    with "1.prems" show ?thesis by (subst (1 2) word_right.simps) auto
  qed
qed

lemma word_right_isword:
  "x \<le> i \<Longrightarrow> i < word_right nw s x \<Longrightarrow> isword nw (s ! i)"
proof (induction nw s x rule: word_right.induct)
  case (1 nw s x0)
  show ?case
  proof (cases "x0 < length s \<and> isword nw (s ! x0)")
    case True
    then have eq: "word_right nw s x0 = word_right nw s (Suc x0)"
      by (subst word_right.simps) auto
    show ?thesis
    proof (cases "i = x0")
      case True
      with \<open>x0 < length s \<and> isword nw (s ! x0)\<close> show ?thesis by simp
    next
      case False
      with "1.prems" have "Suc x0 \<le> i" by simp
      with 1 True eq show ?thesis by simp
    qed
  next
    case False
    then have "word_right nw s x0 = x0"
      by (subst word_right.simps) auto
    with "1.prems" show ?thesis by simp
  qed
qed

lemma set_slice: "j \<le> length s \<Longrightarrow> c \<in> set (slice s i j) \<Longrightarrow> \<exists>k. i \<le> k \<and> k < j \<and> c = s ! k"
proof -
  assume j: "j \<le> length s" and c: "c \<in> set (slice s i j)"
  from c obtain n where n: "n < length (slice s i j)" "c = slice s i j ! n"
    by (auto simp: in_set_conv_nth)
  from n j have "n < j - i" "i + n < length s"
    by (auto simp: slice_def)
  with n have "c = s ! (i + n)"
    by (simp add: slice_def)
  with \<open>n < j - i\<close> show ?thesis
    by (intro exI [of _ "i + n"]) simp
qed

lemma get_word_isword:
  assumes "get_word nw ed x y = Some (text1, text2)"
  shows "\<forall>c\<in>set (text1 @ text2). isword nw c"
proof -
  let ?s = "ed_lines ed ! nat y"
  from assms have x: "0 < x" "x \<le> int (length ?s)"
    and t1: "text1 = slice ?s (word_left nw ?s (nat x)) (nat x)"
    and t2: "text2 = slice ?s (nat x) (word_right nw ?s (nat x))"
    by (auto simp: get_word_def Let_def split: if_splits)
  from x have le: "nat x \<le> length ?s" by simp
  have "isword nw c" if "c \<in> set text1" for c
  proof -
    from that t1 le set_slice [of "nat x" ?s c "word_left nw ?s (nat x)"]
    obtain k where "word_left nw ?s (nat x) \<le> k" "k < nat x" "c = ?s ! k"
      by blast
    then show ?thesis by (simp add: word_left_isword)
  qed
  moreover have "isword nw c" if "c \<in> set text2" for c
  proof -
    from word_right_bounds [OF le] have "word_right nw ?s (nat x) \<le> length ?s" by simp
    from that t2 set_slice [OF this, of c "nat x"]
    obtain k where "nat x \<le> k" "k < word_right nw ?s (nat x)" "c = ?s ! k"
      by blast
    then show ?thesis by (simp add: word_right_isword)
  qed
  ultimately show ?thesis by auto
qed

lemma get_word_no_space:
  "get_word nw ed x y = Some (text1, text2) \<Longrightarrow> 32 \<notin> set text1 \<and> 32 \<notin> set (text1 @ text2)"
  using get_word_isword [of nw ed x y text1 text2] by (auto simp: isword_def)

lemma str_replace_same_or_new:
  "str_replace s old new = s \<or> set new \<subseteq> set (str_replace s old new)"
proof (induction s old new rule: str_replace.induct)
  case (1 old new)
  then show ?case by simp
next
  case (2 c cs old new)
  show ?case
  proof (cases "old \<noteq> [] \<and> prefix old (c # cs)")
    case True
    then show ?thesis by simp
  next
    case False
    with 2 show ?thesis by auto
  qed
qed

lemma decode_neq:
  assumes "32 \<notin> set w" "word \<noteq> w"
  shows "str_replace word (py ''%20'') (py '' '') \<noteq> w"
proof
  assume eq: "str_replace word (py ''%20'') (py '' '') = w"
  from str_replace_same_or_new [of word "py ''%20''" "py '' ''"]
  show False
  proof
    assume "str_replace word (py ''%20'') (py '' '') = word"
    with eq assms show False by simp
  next
    assume "set (py '' '') \<subseteq> set (str_replace word (py ''%20'') (py '' ''))"
    with eq have "32 \<in> set w" by simp
    with assms show False by simp
  qed
qed

lemma acp_decode_word:
  "acp_word (acp_decode e) = str_replace (acp_word e) (py ''%20'') (py '' '')"
  by (cases e) (simp add: acp_decode_def acp_word_def)

lemma acp_loop_result:
  "acp_loop cfg w1 tg acp_lines (p, f, ws) = Inr (p', f', ws') \<Longrightarrow>
   ks = map acp_decode (filter (acp_keep cfg w1 tg) (List.map_filter acp_parse_line acp_lines)) \<Longrightarrow>
   p' = p @ map acp_format (filter (\<lambda>e. is_plain_match cfg (acp_word e) w1) ks)
   \<and> f' = f @ map acp_format (filter (\<lambda>e. \<not> is_plain_match cfg (acp_word e) w1) ks)
   \<and> ws' = ws \<union> acp_word ` set ks"
proof (induction acp_lines arbitrary: p f ws ks)
  case Nil
  then show ?case by (simp add: map_filter_simps)
next
  case (Cons line acp_lines)
  let ?rest = "List.map_filter acp_parse_line acp_lines"
  let ?ks = "map acp_decode (filter (acp_keep cfg w1 tg) ?rest)"
  show ?case
  proof (cases "acp_parse_line line")
    case None
    with Cons.prems(1) have "acp_loop cfg w1 tg acp_lines (p, f, ws) = Inr (p', f', ws')"
      by simp
    moreover from None Cons.prems(2) have "ks = ?ks"
      by (simp add: map_filter_simps)
    ultimately show ?thesis
      by (rule Cons.IH)
  next
    case (Some e)
    obtain pre word args descr where e: "e = (pre, word, args, descr)"
      by (cases e) auto
    have mf: "List.map_filter acp_parse_line (line # acp_lines) = e # ?rest"
      using Some by (simp add: map_filter_simps)
    show ?thesis
    proof (cases "acp_keep cfg w1 tg e")
      case False
      with Cons.prems(1) Some e
      have "acp_loop cfg w1 tg acp_lines (p, f, ws) = Inr (p', f', ws')"
        by (auto simp: acp_keep_def split: sum.splits if_splits)
      moreover from False mf Cons.prems(2) have "ks = ?ks"
        by simp
      ultimately show ?thesis
        by (rule Cons.IH)
    next
      case True
      then have keep: "\<not> int (length word) < option_min_len cfg"
        "is_text_with_begin cfg word w1 = Inr True" "word \<noteq> w1" "word \<noteq> tg"
        by (simp_all add: acp_keep_def e)
      let ?d = "acp_decode e"
      let ?w' = "str_replace word (py ''%20'') (py '' '')"
      have d: "?d = (pre, ?w', args, descr)" "acp_word ?d = ?w'"
        by (simp_all add: acp_decode_def acp_word_def e)
      from True mf Cons.prems(2) have ks: "ks = ?d # ?ks"
        by simp
      show ?thesis
      proof (cases "is_plain_match cfg ?w' w1")
        case True
        with Cons.prems(1) Some e keep
        have "acp_loop cfg w1 tg acp_lines (p @ [acp_format ?d], f, insert ?w' ws) = Inr (p', f', ws')"
          by (simp add: Let_def d acp_decode_def)
        from Cons.IH [OF this refl] True show ?thesis
          unfolding ks by (simp add: d(2))
      next
        case False
        with Cons.prems(1) Some e keep
        have "acp_loop cfg w1 tg acp_lines (p, f @ [acp_format ?d], insert ?w' ws) = Inr (p', f', ws')"
          by (simp add: Let_def d acp_decode_def)
        from Cons.IH [OF this refl] False show ?thesis
          unfolding ks by (simp add: d(2))
      qed
    qed
  qed
qed

lemma get_acp_words_result:
  assumes "get_acp_words h cfg ed w1 w2 = Inr (aw, aset)"
  shows "aw = map acp_format
                (filter (\<lambda>e. is_plain_match cfg (acp_word e) w1) (acp_kept_entries h cfg ed w1 w2)
                 @ filter (\<lambda>e. \<not> is_plain_match cfg (acp_word e) w1)
                     (acp_kept_entries h cfg ed w1 w2))
      \<and> aset = acp_word ` set (acp_kept_entries h cfg ed w1 w2)"
proof (cases "read_acp_lines h ed")
  case None
  with assms have "aw = []" "aset = {}"
    by (simp_all add: get_acp_words_def)
  moreover from None have "acp_kept_entries h cfg ed w1 w2 = []"
    by (simp add: acp_kept_entries_def acp_file_lines_def map_filter_simps)
  ultimately show ?thesis
    by simp
next
  case (Some acp_lines0)
  with assms obtain p f where
    loop: "acp_loop cfg w1 (w1 @ w2) (drop_chars_header acp_lines0) ([], [], {}) = Inr (p, f, aset)"
    and aw: "aw = p @ f"
    by (auto simp: get_acp_words_def Let_def split: sum.splits)
  from Some have k: "acp_kept_entries h cfg ed w1 w2
      = map acp_decode (filter (acp_keep cfg w1 (w1 @ w2))
          (List.map_filter acp_parse_line (drop_chars_header acp_lines0)))"
    by (simp add: acp_kept_entries_def acp_file_lines_def)
  from acp_loop_result [OF loop k] aw show ?thesis
    by simp
qed

lemma acp_kept_subseq: "subseq (acp_kept_entries h cfg ed w1 w2) (acp_file_entries h ed)"
  unfolding acp_kept_entries_def acp_file_entries_def
  by (rule subseq_map) (rule subseq_filter_left)

lemma acp_kept_neq:
  assumes sp: "32 \<notin> set w1" "32 \<notin> set (w1 @ w2)"
    and e: "e \<in> set (acp_kept_entries h cfg ed w1 w2)"
  shows "acp_word e \<noteq> w1 \<and> acp_word e \<noteq> w1 @ w2"
proof -
  from e obtain r where r: "acp_keep cfg w1 (w1 @ w2) r" and er: "e = acp_decode r"
    by (auto simp: acp_kept_entries_def)
  from r have n: "acp_word r \<noteq> w1" "acp_word r \<noteq> w1 @ w2"
    by (cases r; simp add: acp_keep_def acp_word_def)+
  show ?thesis
    unfolding er acp_decode_word
    by (intro conjI decode_neq [OF sp(1) n(1)] decode_neq [OF sp(2) n(2)])
qed

lemma stable_partition_order:
  assumes "xs = filter P b @ filter (\<lambda>x. \<not> P x) b"
    and "i < length xs" "j < length xs" "P (xs ! i)" "\<not> P (xs ! j)"
  shows "i < j"
proof -
  let ?n = "length (filter P b)"
  have "i < ?n"
  proof (rule ccontr)
    assume ge: "\<not> i < ?n"
    with assms(1,2) have k: "i - ?n < length (filter (\<lambda>x. \<not> P x) b)"
      by simp
    from assms(1) ge have "xs ! i = filter (\<lambda>x. \<not> P x) b ! (i - ?n)"
      by (simp add: nth_append)
    with nth_mem [OF k] have "xs ! i \<in> set (filter (\<lambda>x. \<not> P x) b)"
      by simp
    with assms(4) show False by simp
  qed
  moreover have "\<not> j < ?n"
  proof
    assume lt: "j < ?n"
    with assms(1) have "xs ! j = filter P b ! j"
      by (simp add: nth_append)
    with nth_mem [OF lt] have "xs ! j \<in> set (filter P b)"
      by simp
    with assms(5) show False by simp
  qed
  ultimately show ?thesis by simp
qed

lemma stable_partition_filter:
  "filter P (filter P b @ filter (\<lambda>x. \<not> P x) b) = filter P b"
  "filter (\<lambda>x. \<not> P x) (filter P b @ filter (\<lambda>x. \<not> P x) b) = filter (\<lambda>x. \<not> P x) b"
  by simp_all

lemma get_regex_pattern:
  "get_regex cfg [c] nonwords
   = [92] @ py ''$?'' @ [92] @ py ''b'' @ escape_regex [c]
       @ py ''['' @ regex_w_content nonwords @ py '']{''
       @ str_int (max 1 (option_min_len cfg - 1)) @ py '',}''"
  by (simp add: get_regex_def regex_repeats_def)

text \<open>
  What \<open>get_completions\<close> returns, in terms of the locals of \<open>get_completions_words\<close>, and
  what these locals are: \<open>base\<close> is \<open>words\<close> after line 345.
\<close>

lemma get_completions_split:
  assumes "get_completions h cfg ed x0 y0 with_acp ign = Inr (Some (wd, aw, w1, w2))"
  shows "\<exists>words wbt tt.
      get_completions_words h cfg ed x0 y0 with_acp ign = Inr (Some (words, wbt, tt, aw, w1, w2))
    \<and> wd = map (decorate cfg wbt tt) words"
  using assms by (auto simp: get_completions_def split: sum.splits option.splits)

lemma get_completions_words_result:
  assumes "get_completions_words h cfg ed x0 y0 with_acp ign
           = Inr (Some (words, wbt, tt, aw, w1, w2))"
  shows "\<exists>lx eds aset base.
      ed_lexer_file ed = Some lx
    \<and> get_word (host_nonword_chars h ed lx) ed x0 y0 = Some (w1, w2)
    \<and> get_editors cfg h ed lx = Some eds
    \<and> map_raise (\<lambda>e. get_words_list cfg h e (get_regex cfg [w1 ! 0] (host_nonword_chars h ed lx)))
        eds = Inr wbt
    \<and> tt = map (\<lambda>e. str_replace (ed_tab_title e) (py ''|'') (py ''/'')) eds
    \<and> (if with_acp then get_acp_words h cfg ed w1 w2 else Inr ([], {})) = Inr (aw, aset)
    \<and> sorted base \<and> distinct base \<and> set base \<subseteq> set (concat wbt)
    \<and> (\<forall>w\<in>set base. w \<notin> aset \<and> w \<noteq> w1 \<and> w \<noteq> w1 @ w2)
    \<and> words = filter (\<lambda>w. is_plain_match cfg w w1) base
              @ filter (\<lambda>w. \<not> is_plain_match cfg w w1) base"
proof -
  from assms obtain lx where lx: "ed_lexer_file ed = Some lx"
    by (auto simp: get_completions_words_def split: option.splits)
  let ?nw = "host_nonword_chars h ed lx"
  from assms lx have gw: "get_word ?nw ed x0 y0 = Some (w1, w2)"
    by (auto simp: get_completions_words_def Let_def split: option.splits if_splits sum.splits)
  let ?regex = "get_regex cfg [w1 ! 0] ?nw"
  from assms lx gw obtain eds where eds: "get_editors cfg h ed lx = Some eds"
    by (auto simp: get_completions_words_def Let_def split: option.splits if_splits)
  from assms lx gw eds have wbt: "map_raise (\<lambda>e. get_words_list cfg h e ?regex) eds = Inr wbt"
    by (auto simp: get_completions_words_def Let_def split: option.splits if_splits sum.splits)
  from assms lx gw eds wbt
  have tt: "tt = map (\<lambda>e. str_replace (ed_tab_title e) (py ''|'') (py ''/'')) eds"
    by (auto simp: get_completions_words_def Let_def split: option.splits if_splits sum.splits)
  let ?words0 = "concat wbt"
  let ?words1 = "if ?words0 \<noteq> [] then sort (remdups ?words0) else ?words0"
  from assms lx gw eds wbt obtain aset where
    acp: "(if with_acp then get_acp_words h cfg ed w1 w2 else Inr ([], {})) = Inr (aw, aset)"
    by (auto simp: get_completions_words_def Let_def split: option.splits if_splits sum.splits)
  let ?words2 = "filter (\<lambda>w. w \<notin> aset \<and> w \<noteq> w1 \<and> w \<noteq> w1 @ w2) ?words1"
  from assms lx gw eds wbt acp obtain words3 where
    fr: "filter_raise (\<lambda>w. is_text_with_begin cfg w w1) ?words2 = Inr words3"
    and wd: "words = filter (\<lambda>w. is_plain_match cfg w w1) words3
               @ filter (\<lambda>w. \<not> is_plain_match cfg w w1) words3"
    by (auto simp: get_completions_words_def Let_def split: option.splits if_splits sum.splits)
  from filter_raise_Inr [OF fr]
  have w3: "words3 = filter (\<lambda>w. is_text_with_begin cfg w w1 = Inr True) ?words2" .
  have s1: "sorted ?words1" "distinct ?words1"
    by (cases "?words0 = []"; simp only: if_True if_False not_True_eq_False not_False_eq_True
          sorted_sort distinct_sort distinct_remdups sorted0 distinct.simps)+
  then have "sorted ?words2" "distinct ?words2"
    by (simp_all add: sorted_wrt_filter del: filter_filter)
  then have "sorted words3" "distinct words3"
    unfolding w3 by (simp_all add: sorted_wrt_filter del: filter_filter)
  moreover have "set ?words1 \<subseteq> set ?words0"
    by (cases "?words0 = []") simp_all
  then have "set words3 \<subseteq> set (concat wbt)"
    unfolding w3 by auto
  moreover have "\<forall>w\<in>set words3. w \<notin> aset \<and> w \<noteq> w1 \<and> w \<noteq> w1 @ w2"
    unfolding w3 by simp
  ultimately show ?thesis
    using lx gw eds wbt tt acp wd by blast
qed

lemma acp_part_result:
  assumes "(if with_acp then get_acp_words h cfg ed w1 w2 else Inr ([], {})) = Inr (aw, aset)"
    and "kept = (if with_acp then acp_kept_entries h cfg ed w1 w2 else [])"
  shows "aw = map acp_format
                (filter (\<lambda>e. is_plain_match cfg (acp_word e) w1) kept
                 @ filter (\<lambda>e. \<not> is_plain_match cfg (acp_word e) w1) kept)
      \<and> aset = acp_word ` set kept"
proof (cases with_acp)
  case False
  with assms show ?thesis by simp
next
  case True
  with assms(1) have "get_acp_words h cfg ed w1 w2 = Inr (aw, aset)" by simp
  from get_acp_words_result [OF this] True assms(2) show ?thesis
    by simp
qed

text \<open>
  The result of a request.  \<open>base\<close> is the list \<open>words\<close> of line 345, \<open>kept\<close> the entries
  that \<open>get_acp_words\<close> keeps.
\<close>

lemma request_result:
  assumes "get_completions h cfg ed x0 y0 with_acp ign = Inr (Some (wd, aw, w1, w2))"
    and "kept = (if with_acp then acp_kept_entries h cfg ed w1 w2 else [])"
  shows "\<exists>words wbt tt lx eds base.
      get_completions_words h cfg ed x0 y0 with_acp ign = Inr (Some (words, wbt, tt, aw, w1, w2))
    \<and> wd = map (decorate cfg wbt tt) words
    \<and> ed_lexer_file ed = Some lx
    \<and> get_editors cfg h ed lx = Some eds
    \<and> map_raise (\<lambda>e. get_words_list cfg h e (get_regex cfg [w1 ! 0] (host_nonword_chars h ed lx)))
        eds = Inr wbt
    \<and> tt = map (\<lambda>e. str_replace (ed_tab_title e) (py ''|'') (py ''/'')) eds
    \<and> words = filter (\<lambda>w. is_plain_match cfg w w1) base
              @ filter (\<lambda>w. \<not> is_plain_match cfg w w1) base
    \<and> sorted base \<and> distinct base \<and> set base \<subseteq> set (concat wbt)
    \<and> (\<forall>w\<in>set base. w \<notin> acp_word ` set kept \<and> w \<noteq> w1 \<and> w \<noteq> w1 @ w2)
    \<and> aw = map acp_format
                (filter (\<lambda>e. is_plain_match cfg (acp_word e) w1) kept
                 @ filter (\<lambda>e. \<not> is_plain_match cfg (acp_word e) w1) kept)
    \<and> subseq kept (acp_file_entries h ed)
    \<and> (\<forall>e\<in>set kept. acp_word e \<noteq> w1 \<and> acp_word e \<noteq> w1 @ w2)"
proof -
  from get_completions_split [OF assms(1)] obtain words wbt tt where
    gcw: "get_completions_words h cfg ed x0 y0 with_acp ign
          = Inr (Some (words, wbt, tt, aw, w1, w2))"
    and wd: "wd = map (decorate cfg wbt tt) words"
    by blast
  from get_completions_words_result [OF gcw] obtain lx eds aset base where
    lx: "ed_lexer_file ed = Some lx"
    and gw: "get_word (host_nonword_chars h ed lx) ed x0 y0 = Some (w1, w2)"
    and eds: "get_editors cfg h ed lx = Some eds"
    and wbt: "map_raise (\<lambda>e. get_words_list cfg h e
                (get_regex cfg [w1 ! 0] (host_nonword_chars h ed lx))) eds = Inr wbt"
    and tt: "tt = map (\<lambda>e. str_replace (ed_tab_title e) (py ''|'') (py ''/'')) eds"
    and acp: "(if with_acp then get_acp_words h cfg ed w1 w2 else Inr ([], {})) = Inr (aw, aset)"
    and base: "sorted base" "distinct base" "set base \<subseteq> set (concat wbt)"
      "\<forall>w\<in>set base. w \<notin> aset \<and> w \<noteq> w1 \<and> w \<noteq> w1 @ w2"
    and words: "words = filter (\<lambda>w. is_plain_match cfg w w1) base
              @ filter (\<lambda>w. \<not> is_plain_match cfg w w1) base"
    by blast
  from get_word_no_space [OF gw] have sp: "32 \<notin> set w1" "32 \<notin> set (w1 @ w2)"
    by simp_all
  from acp_part_result [OF acp assms(2)]
  have aw: "aw = map acp_format
                (filter (\<lambda>e. is_plain_match cfg (acp_word e) w1) kept
                 @ filter (\<lambda>e. \<not> is_plain_match cfg (acp_word e) w1) kept)"
    and aset: "aset = acp_word ` set kept"
    by simp_all
  have kept: "subseq kept (acp_file_entries h ed)"
    unfolding assms(2) by (simp add: acp_kept_subseq)
  have ne: "\<forall>e\<in>set kept. acp_word e \<noteq> w1 \<and> acp_word e \<noteq> w1 @ w2"
    unfolding assms(2) using acp_kept_neq [OF sp, of _ h cfg ed] by (cases with_acp) auto
  from base(4) aset have b4: "\<forall>w\<in>set base. w \<notin> acp_word ` set kept \<and> w \<noteq> w1 \<and> w \<noteq> w1 @ w2"
    by simp
  show ?thesis
    by (intro exI [of _ words] exI [of _ wbt] exI [of _ tt] exI [of _ lx] exI [of _ eds]
          exI [of _ base] conjI gcw wd lx eds wbt tt words base(1,2,3) b4 aw kept ne)
qed

section \<open>Requests on a single line\<close>

lemma line_lexfile: "ed_lexer_file (line_editor line) = Some (py ''Markdown'')"
  by (simp add: line_editor_def)

lemma line_nonwords: "host_nonword_chars (line_host line table) e lx = NONWORDS_DEFAULT"
  by (simp add: line_host_def)

lemma line_editors:
  "option_what_editors cfg = 0 \<Longrightarrow>
   get_editors cfg (line_host line table) (line_editor line) lx = Some [line_editor line]"
  by (simp add: get_editors_def)

lemma line_words_list:
  "1 \<le> option_max_lines cfg \<Longrightarrow>
   get_words_list cfg (line_host line table) (line_editor line) regex
   = (case map_of table regex of None \<Rightarrow> Inr [] | Some tokens \<Rightarrow> Inr (remdups tokens))"
  by (simp add: get_words_list_def get_text_all_def line_host_def line_editor_def
        split: option.splits)

lemma line_title:
  "str_replace (ed_tab_title (line_editor line)) (py ''|'') (py ''/'') = py ''notes.md''"
  by (simp add: line_editor_def)

lemma line_acp: "get_acp_words (line_host line table) cfg (line_editor line) word1 word2 = Inr ([], {})"
  by (simp add: get_acp_words_def read_acp_lines_def line_host_def)

lemma default_options:
  "option_what_editors default_config = 0"
  "option_max_lines default_config = 10000"
  "option_what_editors (default_config\<lparr>option_min_len := 5\<rparr>) = 0"
  "option_max_lines (default_config\<lparr>option_min_len := 5\<rparr>) = 10000"
  by (simp_all add: default_config_def)

lemma p_word1: "py ''p'' \<noteq> []" "isdigit (py ''p'' ! 0) = False"
  by (simp_all add: isdigit_def)

lemma p_regex:
  "get_regex default_config [py ''p'' ! 0] NONWORDS_DEFAULT
   = [92] @ py ''$?'' @ [92] @ py ''bp['' @ [92] @ py ''w]{2,}''"
  by (simp add: regex_eval_defs)

lemmas line_stages = line_lexfile line_nonwords line_editors line_words_list line_title line_acp
  example_lexer

section \<open>The scan pattern of a request\<close>

lemma host_update_words_list:
  "\<forall>text ignorecase. f regex text ignorecase = host_re_findall h regex text ignorecase \<Longrightarrow>
   get_words_list cfg (h\<lparr>host_re_findall := f\<rparr>) e regex = get_words_list cfg h e regex"
  by (simp add: get_words_list_def)

lemma host_update_acp_words:
  "get_acp_words (h\<lparr>host_re_findall := f\<rparr>) cfg ed word1 word2 = get_acp_words h cfg ed word1 word2"
  by (simp add: get_acp_words_def read_acp_lines_def Let_def split: option.splits)

lemma host_update_editors:
  "get_editors cfg (h\<lparr>host_re_findall := f\<rparr>) ed lx = get_editors cfg h ed lx"
  by (simp add: get_editors_def)

lemma host_update_request:
  assumes lx: "ed_lexer_file ed_self = Some lx"
    and gw: "get_word (host_nonword_chars h ed_self lx) ed_self x0 y0 = Some (word1, word2)"
    and f: "\<forall>text ignorecase.
        f (get_regex cfg [word1 ! 0] (host_nonword_chars h ed_self lx)) text ignorecase
        = host_re_findall h (get_regex cfg [word1 ! 0] (host_nonword_chars h ed_self lx))
            text ignorecase"
  shows "get_completions_words (h\<lparr>host_re_findall := f\<rparr>) cfg ed_self x0 y0 with_acp ignore_lexer
         = get_completions_words h cfg ed_self x0 y0 with_acp ignore_lexer"
proof -
  have wl: "get_words_list cfg (h\<lparr>host_re_findall := f\<rparr>) e
              (get_regex cfg [word1 ! 0] (host_nonword_chars h ed_self lx))
            = get_words_list cfg h e
                (get_regex cfg [word1 ! 0] (host_nonword_chars h ed_self lx))" for e
    using f by (rule host_update_words_list)
  show ?thesis
    unfolding get_completions_words_def
    by (simp add: lx gw wl host_update_acp_words host_update_editors
          cong: option.case_cong sum.case_cong if_cong)
qed

text \<open>
  C4, as the source has it.  \<open>get_completions\<close> calls \<open>get_regex(word1[0], nonwords)\<close>: for a
  request with the typed prefix \<open>left\<close> the pattern is \<^verbatim>\<open>\$?\b\<close>, the first character of
  \<open>left\<close> escaped, the class of word characters and the quantifier \<^verbatim>\<open>{n,}\<close> with
  \<open>n = max(1, min_len - 1)\<close>, whatever the length of \<open>left\<close>.  This is the pattern of the
  request: \<open>re.findall\<close> may be replaced by any function that agrees with it on this one
  pattern and the request returns the same; and when the request comes to its end, the
  word list of every tab is \<open>get_words_list\<close> of the tab for this pattern.
\<close>

theorem scan_pattern_of_request:
  assumes "ed_lexer_file ed_self = Some lx"
    and "get_word (host_nonword_chars h ed_self lx) ed_self x0 y0 = Some (left, right)"
    and "left \<noteq> []"
    and "pattern = [92] @ py ''$?'' @ [92] @ py ''b'' @ escape_regex [left ! 0]
           @ py ''['' @ regex_w_content (host_nonword_chars h ed_self lx) @ py '']{''
           @ str_int (max 1 (option_min_len cfg - 1)) @ py '',}''"
  shows "((\<forall>text ignorecase. f pattern text ignorecase = host_re_findall h pattern text ignorecase)
          \<longrightarrow> get_completions (h\<lparr>host_re_findall := f\<rparr>) cfg ed_self x0 y0 with_acp ignore_lexer
              = get_completions h cfg ed_self x0 y0 with_acp ignore_lexer)
       \<and> (get_completions_words h cfg ed_self x0 y0 with_acp ignore_lexer
            = Inr (Some (words, words_by_tabs, tab_titles, acp_words, word1, word2))
          \<longrightarrow> (\<exists>eds. get_editors cfg h ed_self lx = Some eds
                 \<and> map_raise (\<lambda>e. get_words_list cfg h e pattern) eds = Inr words_by_tabs))"
proof (intro conjI impI)
  have r: "get_regex cfg [left ! 0] (host_nonword_chars h ed_self lx) = pattern"
    unfolding assms(4) by (rule get_regex_pattern)
  {
    assume "\<forall>text ignorecase. f pattern text ignorecase = host_re_findall h pattern text ignorecase"
    then have "\<forall>text ignorecase.
        f (get_regex cfg [left ! 0] (host_nonword_chars h ed_self lx)) text ignorecase
        = host_re_findall h (get_regex cfg [left ! 0] (host_nonword_chars h ed_self lx))
            text ignorecase"
      unfolding r .
    with assms(1,2)
    have "get_completions_words (h\<lparr>host_re_findall := f\<rparr>) cfg ed_self x0 y0 with_acp ignore_lexer
          = get_completions_words h cfg ed_self x0 y0 with_acp ignore_lexer"
      by (rule host_update_request)
    then show "get_completions (h\<lparr>host_re_findall := f\<rparr>) cfg ed_self x0 y0 with_acp ignore_lexer
          = get_completions h cfg ed_self x0 y0 with_acp ignore_lexer"
      by (simp add: get_completions_def)
  }
  {
    assume "get_completions_words h cfg ed_self x0 y0 with_acp ignore_lexer
            = Inr (Some (words, words_by_tabs, tab_titles, acp_words, word1, word2))"
    from get_completions_words_result [OF this] obtain lx' eds where
      lx': "ed_lexer_file ed_self = Some lx'"
      and gw: "get_word (host_nonword_chars h ed_self lx') ed_self x0 y0 = Some (word1, word2)"
      and eds: "get_editors cfg h ed_self lx' = Some eds"
      and wbt: "map_raise (\<lambda>e. get_words_list cfg h e
                  (get_regex cfg [word1 ! 0] (host_nonword_chars h ed_self lx'))) eds
                = Inr words_by_tabs"
      by blast
    from lx' assms(1) have l: "lx' = lx" by simp
    from gw assms(2) have w: "word1 = left" unfolding l by simp
    from eds wbt
    show "\<exists>eds. get_editors cfg h ed_self lx = Some eds
            \<and> map_raise (\<lambda>e. get_words_list cfg h e pattern) eds = Inr words_by_tabs"
      unfolding l w r by blast
  }
qed

theorem scan_pattern_of_request_witness:
  "ed_lexer_file example_editor = Some (py ''Markdown'')
   \<and> get_word (host_nonword_chars example_host example_editor (py ''Markdown'')) example_editor 16 0
       = Some (py ''pl'', [])
   \<and> py ''pl'' \<noteq> []
   \<and> [92] @ py ''$?'' @ [92] @ py ''bp['' @ [92] @ py ''w]{2,}''
       = [92] @ py ''$?'' @ [92] @ py ''b'' @ escape_regex [py ''pl'' ! 0]
           @ py ''['' @ regex_w_content (host_nonword_chars example_host example_editor (py ''Markdown''))
           @ py '']{'' @ str_int (max 1 (option_min_len default_config - 1)) @ py '',}''
   \<and> (\<forall>text ignorecase.
         pattern_only ([92] @ py ''$?'' @ [92] @ py ''bp['' @ [92] @ py ''w]{2,}'')
           (host_re_findall example_host)
           ([92] @ py ''$?'' @ [92] @ py ''bp['' @ [92] @ py ''w]{2,}'') text ignorecase
         = host_re_findall example_host
             ([92] @ py ''$?'' @ [92] @ py ''bp['' @ [92] @ py ''w]{2,}'') text ignorecase)
   \<and> get_completions
         (example_host\<lparr>host_re_findall :=
            pattern_only ([92] @ py ''$?'' @ [92] @ py ''bp['' @ [92] @ py ''w]{2,}'')
              (host_re_findall example_host)\<rparr>)
         default_config example_editor 16 0 True False
       = get_completions example_host default_config example_editor 16 0 True False
   \<and> get_completions_words example_host default_config example_editor 16 0 True False
       = Inr (Some ([py ''please'', py ''plenty''], [[py ''please'', py ''plenty'']], [py ''notes.md''],
                    [py ''f|plot it|(a, b)'' @ [9], py ''f|aplenty|'' @ [9]], py ''pl'', []))
   \<and> (\<exists>eds. get_editors default_config example_host example_editor (py ''Markdown'') = Some eds
          \<and> map_raise (\<lambda>e. get_words_list default_config example_host e
                             ([92] @ py ''$?'' @ [92] @ py ''bp['' @ [92] @ py ''w]{2,}'')) eds
              = Inr [[py ''please'', py ''plenty'']])"
proof -
  let ?pat = "[92] @ py ''$?'' @ [92] @ py ''bp['' @ [92] @ py ''w]{2,}''"
  have h1: "ed_lexer_file example_editor = Some (py ''Markdown'')"
    by (rule example_lexfile)
  have h2: "get_word (host_nonword_chars example_host example_editor (py ''Markdown''))
              example_editor 16 0 = Some (py ''pl'', [])"
    unfolding example_nonwords by (rule example_word)
  have h3: "py ''pl'' \<noteq> []"
    by simp
  have h4: "?pat = [92] @ py ''$?'' @ [92] @ py ''b'' @ escape_regex [py ''pl'' ! 0]
           @ py ''['' @ regex_w_content (host_nonword_chars example_host example_editor (py ''Markdown''))
           @ py '']{'' @ str_int (max 1 (option_min_len default_config - 1)) @ py '',}''"
    unfolding example_nonwords by (simp add: regex_eval_defs)
  have h5: "\<forall>text ignorecase.
         pattern_only ?pat (host_re_findall example_host) ?pat text ignorecase
         = host_re_findall example_host ?pat text ignorecase"
    by (simp add: pattern_only_def)
  note inst = scan_pattern_of_request [OF h1 h2 h3 h4,
      where f = "pattern_only ?pat (host_re_findall example_host)"
        and with_acp = True and ignore_lexer = False]
  from inst h5 have c1: "get_completions
         (example_host\<lparr>host_re_findall := pattern_only ?pat (host_re_findall example_host)\<rparr>)
         default_config example_editor 16 0 True False
       = get_completions example_host default_config example_editor 16 0 True False"
    by blast
  from inst example_words_result
  have c2: "\<exists>eds. get_editors default_config example_host example_editor (py ''Markdown'') = Some eds
          \<and> map_raise (\<lambda>e. get_words_list default_config example_host e ?pat) eds
              = Inr [[py ''please'', py ''plenty'']]"
    by blast
  show ?thesis
    by (intro conjI h1 h2 h3 h4 h5 c1 example_words_result c2)
qed

lemma abc_lexer: "is_lexer_allowed (default_config\<lparr>option_min_len := 5\<rparr>) (py ''Markdown'') = True"
  by (simp add: is_lexer_allowed_def default_config_def sublist_code str_lower_def lower_chars_def)

lemma abc_word:
  "get_word NONWORDS_DEFAULT (line_editor (py ''abcd abcde abc'')) 14 0 = Some (py ''abc'', [])"
  by (simp add: get_word_def line_editor_def slice_def NONWORDS_DEFAULT_def isword_def
        word_right.simps word_left.simps)

lemma abc_word1: "py ''abc'' \<noteq> []" "isdigit (py ''abc'' ! 0) = False"
  by (simp_all add: isdigit_def)

lemma abc_regex:
  "get_regex (default_config\<lparr>option_min_len := 5\<rparr>) [py ''abc'' ! 0] NONWORDS_DEFAULT
   = [92] @ py ''$?'' @ [92] @ py ''ba['' @ [92] @ py ''w]{4,}''"
  by (simp add: regex_eval_defs)

lemma abc_filter:
  "filter_raise (\<lambda>w. is_text_with_begin (default_config\<lparr>option_min_len := 5\<rparr>) w (py ''abc''))
     [py ''abcde''] = Inr [py ''abcde'']"
  by (simp add: is_text_with_begin_def default_config_def fuzzy_subseq
        str_upper_def upper_chars_def)

lemma abc_plain:
  "is_plain_match (default_config\<lparr>option_min_len := 5\<rparr>) (py ''abcde'') (py ''abc'')"
  by (simp add: is_plain_match_def default_config_def startswith_def)

lemma abc_decorate:
  "decorate (default_config\<lparr>option_min_len := 5\<rparr>) wbt tt (py ''abcde'') = py ''text|abcde''"
  by (simp add: decorate_def get_prefix_def search_tab_def startswith_def default_config_def)

lemma abc_result:
  "get_completions
     (line_host (py ''abcd abcde abc'')
        [([92] @ py ''$?'' @ [92] @ py ''ba['' @ [92] @ py ''w]{4,}'', [py ''abcde'']),
         ([92] @ py ''$?'' @ [92] @ py ''ba['' @ [92] @ py ''w]{2,}'',
          [py ''abcd'', py ''abcde'', py ''abc''])])
     (default_config\<lparr>option_min_len := 5\<rparr>) (line_editor (py ''abcd abcde abc'')) 14 0 True False
   = Inr (Some ([py ''text|abcde''], [], py ''abc'', []))"
  by (simp add: get_completions_def get_completions_words_def Let_def default_options
        line_stages [simplified] abc_lexer [simplified] abc_word [simplified]
        abc_word1 [simplified] abc_regex [simplified] abc_filter [simplified]
        abc_plain [simplified] abc_decorate [simplified])

lemma abc_passes:
  "py ''abcd'' \<noteq> py ''abc'' \<and> py ''abcd'' \<noteq> py ''abc'' @ []
   \<and> is_text_with_begin (default_config\<lparr>option_min_len := 5\<rparr>) (py ''abcd'') (py ''abc'') = Inr True"
  by (simp add: is_text_with_begin_def default_config_def fuzzy_subseq
        str_upper_def upper_chars_def)

lemma pay_word:
  "get_word NONWORDS_DEFAULT (line_editor (py ''$pay p'')) 6 0 = Some (py ''p'', [])"
  by (simp add: get_word_def line_editor_def slice_def NONWORDS_DEFAULT_def isword_def
        word_right.simps word_left.simps)

lemma pay_filter:
  "filter_raise (\<lambda>w. is_text_with_begin default_config w (py ''p''))
     [py ''$pay''] = Inr [py ''$pay'']"
  by (simp add: is_text_with_begin_def default_config_def fuzzy_subseq
        str_upper_def upper_chars_def)

lemma pay_plain: "\<not> is_plain_match default_config (py ''$pay'') (py ''p'')"
  by (simp add: is_plain_match_def default_config_def startswith_def)

lemma pay_decorate: "decorate default_config wbt tt (py ''$pay'') = py ''var|$pay''"
  by (simp add: decorate_def get_prefix_def search_tab_def startswith_def default_config_def)

lemma pay_result:
  "get_completions
     (line_host (py ''$pay p'')
        [([92] @ py ''$?'' @ [92] @ py ''bp['' @ [92] @ py ''w]{2,}'', [py ''$pay''])])
     default_config (line_editor (py ''$pay p'')) 6 0 True False
   = Inr (Some ([py ''var|$pay''], [], py ''p'', []))"
  by (simp add: get_completions_def get_completions_words_def Let_def default_options
        line_stages [simplified] pay_word [simplified]
        p_word1 [simplified] p_regex [simplified] pay_filter [simplified]
        pay_plain [simplified] pay_decorate [simplified])

text \<open>
  C4 as stated fails.  With the minimum length 5 and the typed prefix \<open>abc\<close> the claim asks
  for a run of at least \<open>max(1, 5 - 3) = 2\<close> characters after the first; the pattern of the
  request is \<^verbatim>\<open>\$?\ba[\w]{4,}\<close>, which asks for 4.  On the line \<open>abcd abcde abc\<close>, with
  the cursor at its end, \<open>re.findall\<close> gives \<open>abcde\<close> for this pattern, and \<open>abcd\<close>, \<open>abcde\<close>
  and \<open>abc\<close> for the pattern \<^verbatim>\<open>\$?\ba[\w]{2,}\<close> of the claim.  The request returns \<open>abcde\<close>
  alone, although \<open>abcd\<close> passes every test of the request after the scan.  Nor does a
  token have to begin with the first character of the prefix: the pattern starts with an
  optional \<open>$\<close>, so on the line \<open>$pay p\<close> the request for the prefix \<open>p\<close> returns \<open>$pay\<close>.
\<close>

theorem scan_pattern_counterexample:
  "get_completions
     (line_host (py ''abcd abcde abc'')
        [([92] @ py ''$?'' @ [92] @ py ''ba['' @ [92] @ py ''w]{4,}'', [py ''abcde'']),
         ([92] @ py ''$?'' @ [92] @ py ''ba['' @ [92] @ py ''w]{2,}'',
          [py ''abcd'', py ''abcde'', py ''abc''])])
     (default_config\<lparr>option_min_len := 5\<rparr>) (line_editor (py ''abcd abcde abc'')) 14 0 True False
   = Inr (Some ([py ''text|abcde''], [], py ''abc'', []))
   \<and> max 1 (option_min_len (default_config\<lparr>option_min_len := 5\<rparr>) - int (length (py ''abc''))) = 2
   \<and> py ''abcd'' \<noteq> py ''abc'' \<and> py ''abcd'' \<noteq> py ''abc'' @ []
   \<and> is_text_with_begin (default_config\<lparr>option_min_len := 5\<rparr>) (py ''abcd'') (py ''abc'') = Inr True
   \<and> get_completions
       (line_host (py ''$pay p'')
          [([92] @ py ''$?'' @ [92] @ py ''bp['' @ [92] @ py ''w]{2,}'', [py ''$pay''])])
       default_config (line_editor (py ''$pay p'')) 6 0 True False
     = Inr (Some ([py ''var|$pay''], [], py ''p'', []))"
proof -
  have "max 1 (option_min_len (default_config\<lparr>option_min_len := 5\<rparr>) - int (length (py ''abc''))) = 2"
    by simp
  with abc_result abc_passes pay_result show ?thesis
    by (intro conjI) simp_all
qed

section \<open>The order of the candidates\<close>

lemma example_kept:
  "[(py ''f'', py ''plot it'', py ''(a, b)'', []), (py ''f'', py ''aplenty'', [], [])]
   = (if True then acp_kept_entries example_host default_config example_editor (py ''pl'') [] else [])"
  by (simp add: acp_kept_entries_def acp_file_lines_def acp_keep_def acp_decode_def
        map_filter_simps acp_eval_defs)

lemma zebra_word:
  "get_word NONWORDS_DEFAULT (line_editor (py ''pZebra papple p'')) 15 0 = Some (py ''p'', [])"
  by (simp add: get_word_def line_editor_def slice_def NONWORDS_DEFAULT_def isword_def
        word_right.simps word_left.simps)

lemma zebra_sort:
  "sort (remdups [py ''pZebra'', py ''papple'']) = [py ''pZebra'', py ''papple'']"
  by simp

lemma zebra_filter:
  "filter_raise (\<lambda>w. is_text_with_begin default_config w (py ''p''))
     [py ''pZebra'', py ''papple''] = Inr [py ''pZebra'', py ''papple'']"
  by (simp add: is_text_with_begin_def default_config_def fuzzy_subseq
        str_upper_def upper_chars_def)

lemma zebra_plain:
  "is_plain_match default_config (py ''pZebra'') (py ''p'')"
  "is_plain_match default_config (py ''papple'') (py ''p'')"
  by (simp_all add: is_plain_match_def default_config_def startswith_def)

lemma zebra_decorate:
  "decorate default_config wbt tt (py ''pZebra'') = py ''text|pZebra''"
  "decorate default_config wbt tt (py ''papple'') = py ''text|papple''"
  by (simp_all add: decorate_def get_prefix_def search_tab_def startswith_def default_config_def)

lemma zebra_result:
  "get_completions
     (line_host (py ''pZebra papple p'')
        [([92] @ py ''$?'' @ [92] @ py ''bp['' @ [92] @ py ''w]{2,}'', [py ''pZebra'', py ''papple''])])
     default_config (line_editor (py ''pZebra papple p'')) 15 0 True False
   = Inr (Some ([py ''text|pZebra'', py ''text|papple''], [], py ''p'', []))"
  by (simp add: get_completions_def get_completions_words_def Let_def default_options
        line_stages [simplified] zebra_word [simplified] zebra_sort [simplified]
        p_word1 [simplified] p_regex [simplified] zebra_filter [simplified]
        zebra_plain [simplified] zebra_decorate [simplified])

lemma zebra_order:
  "str_lower (py ''papple'') < str_lower (py ''pZebra'') \<and> py ''pZebra'' < py ''papple''"
  by (simp add: str_lower_def lower_chars_def)

text \<open>
  C5, with the order that the source has.  When a request returns a result, the buffer
  candidates are the decorated words of the list \<open>words\<close> that \<open>get_completions\<close> has at
  line 355, decorated with the word lists and titles of the tabs that it has scanned, and
  every word is a token of a scanned tab.  The dictionary candidates are the formatted
  entries of the list \<open>entries\<close>: the entries \<open>kept\<close> that \<open>get_acp_words\<close> keeps, which
  stand in the order of the lines of the dictionary file, those with a plain match first
  and the others after them.  In each list every element whose word is a plain match of
  the typed prefix stands before every element whose word is not.  The plain words and
  the other words are each in ascending order by code points, the order of \<open>sorted\<close>, in
  which a proper prefix comes first and every upper-case letter comes before every
  lower-case letter; the plain entries and the other entries are each in the order of the
  lines of the file.
\<close>

theorem completions_plain_first:
  assumes "get_completions h cfg ed_self x0 y0 with_acp ignore_lexer
           = Inr (Some (words_decorated, acp_words, word1, word2))"
    and "kept = (if with_acp then acp_kept_entries h cfg ed_self word1 word2 else [])"
  shows "\<exists>words words_by_tabs tab_titles lx eds entries.
      get_completions_words h cfg ed_self x0 y0 with_acp ignore_lexer
        = Inr (Some (words, words_by_tabs, tab_titles, acp_words, word1, word2))
    \<and> words_decorated = map (decorate cfg words_by_tabs tab_titles) words
    \<and> ed_lexer_file ed_self = Some lx
    \<and> get_editors cfg h ed_self lx = Some eds
    \<and> map_raise (\<lambda>e. get_words_list cfg h e
                       (get_regex cfg [word1 ! 0] (host_nonword_chars h ed_self lx))) eds
        = Inr words_by_tabs
    \<and> tab_titles = map (\<lambda>e. str_replace (ed_tab_title e) (py ''|'') (py ''/'')) eds
    \<and> set words \<subseteq> set (concat words_by_tabs)
    \<and> (\<forall>i j. i < length words \<and> j < length words
             \<and> is_plain_match cfg (words ! i) word1 \<and> \<not> is_plain_match cfg (words ! j) word1
             \<longrightarrow> i < j)
    \<and> sorted (filter (\<lambda>w. is_plain_match cfg w word1) words)
    \<and> sorted (filter (\<lambda>w. \<not> is_plain_match cfg w word1) words)
    \<and> entries = filter (\<lambda>e. is_plain_match cfg (acp_word e) word1) kept
                @ filter (\<lambda>e. \<not> is_plain_match cfg (acp_word e) word1) kept
    \<and> acp_words = map acp_format entries
    \<and> subseq kept (acp_file_entries h ed_self)
    \<and> (\<forall>i j. i < length entries \<and> j < length entries
             \<and> is_plain_match cfg (acp_word (entries ! i)) word1
             \<and> \<not> is_plain_match cfg (acp_word (entries ! j)) word1
             \<longrightarrow> i < j)
    \<and> filter (\<lambda>e. is_plain_match cfg (acp_word e) word1) entries
        = filter (\<lambda>e. is_plain_match cfg (acp_word e) word1) kept
    \<and> filter (\<lambda>e. \<not> is_plain_match cfg (acp_word e) word1) entries
        = filter (\<lambda>e. \<not> is_plain_match cfg (acp_word e) word1) kept"
proof -
  let ?P = "\<lambda>w. is_plain_match cfg w word1"
  let ?Q = "\<lambda>e. is_plain_match cfg (acp_word e) word1"
  from request_result [OF assms] obtain words wbt tt lx eds base where
    gcw: "get_completions_words h cfg ed_self x0 y0 with_acp ignore_lexer
          = Inr (Some (words, wbt, tt, acp_words, word1, word2))"
    and wd: "words_decorated = map (decorate cfg wbt tt) words"
    and lx: "ed_lexer_file ed_self = Some lx"
    and eds: "get_editors cfg h ed_self lx = Some eds"
    and wbt: "map_raise (\<lambda>e. get_words_list cfg h e
                (get_regex cfg [word1 ! 0] (host_nonword_chars h ed_self lx))) eds = Inr wbt"
    and tt: "tt = map (\<lambda>e. str_replace (ed_tab_title e) (py ''|'') (py ''/'')) eds"
    and words: "words = filter ?P base @ filter (\<lambda>w. \<not> ?P w) base"
    and base: "sorted base" "set base \<subseteq> set (concat wbt)"
    and aw: "acp_words = map acp_format (filter ?Q kept @ filter (\<lambda>e. \<not> ?Q e) kept)"
    and kept: "subseq kept (acp_file_entries h ed_self)"
    by blast
  let ?entries = "filter ?Q kept @ filter (\<lambda>e. \<not> ?Q e) kept"
  have sub: "set words \<subseteq> set (concat wbt)"
    unfolding words using base(2) by auto
  have o1: "\<forall>i j. i < length words \<and> j < length words \<and> ?P (words ! i) \<and> \<not> ?P (words ! j)
             \<longrightarrow> i < j"
    using stable_partition_order [OF words] by blast
  have o2: "\<forall>i j. i < length ?entries \<and> j < length ?entries
             \<and> ?Q (?entries ! i) \<and> \<not> ?Q (?entries ! j) \<longrightarrow> i < j"
    using stable_partition_order [of ?entries ?Q kept] by blast
  have s1: "sorted (filter ?P words)"
    unfolding words stable_partition_filter using base(1) by (rule sorted_wrt_filter)
  have s2: "sorted (filter (\<lambda>w. \<not> ?P w) words)"
    unfolding words stable_partition_filter using base(1) by (rule sorted_wrt_filter)
  show ?thesis
    by (intro exI [of _ words] exI [of _ wbt] exI [of _ tt] exI [of _ lx] exI [of _ eds]
          exI [of _ ?entries] conjI gcw wd lx eds wbt tt sub o1 s1 s2 refl aw kept o2
          stable_partition_filter)
qed

theorem completions_plain_first_witness:
  "get_completions example_host default_config example_editor 16 0
     True False
   = Inr (Some ([py ''text|please'', py ''text|plenty''],
                [py ''f|plot it|(a, b)'' @ [9], py ''f|aplenty|'' @ [9]], py ''pl'', []))
   \<and> [(py ''f'', py ''plot it'', py ''(a, b)'', []), (py ''f'', py ''aplenty'', [], [])]
     = (if True then acp_kept_entries example_host default_config example_editor (py ''pl'') [] else [])
   \<and> (\<exists>words words_by_tabs tab_titles lx eds entries.
      get_completions_words example_host default_config example_editor 16 0 True False
        = Inr (Some (words, words_by_tabs, tab_titles,
                     [py ''f|plot it|(a, b)'' @ [9], py ''f|aplenty|'' @ [9]], py ''pl'', []))
    \<and> [py ''text|please'', py ''text|plenty'']
        = map (decorate default_config words_by_tabs tab_titles) words
    \<and> ed_lexer_file example_editor = Some lx
    \<and> get_editors default_config example_host example_editor lx = Some eds
    \<and> map_raise (\<lambda>e. get_words_list default_config example_host e
                       (get_regex default_config [py ''pl'' ! 0]
                          (host_nonword_chars example_host example_editor lx))) eds
        = Inr words_by_tabs
    \<and> tab_titles = map (\<lambda>e. str_replace (ed_tab_title e) (py ''|'') (py ''/'')) eds
    \<and> set words \<subseteq> set (concat words_by_tabs)
    \<and> (\<forall>i j. i < length words \<and> j < length words
             \<and> is_plain_match default_config (words ! i) (py ''pl'')
             \<and> \<not> is_plain_match default_config (words ! j) (py ''pl'')
             \<longrightarrow> i < j)
    \<and> sorted (filter (\<lambda>w. is_plain_match default_config w (py ''pl'')) words)
    \<and> sorted (filter (\<lambda>w. \<not> is_plain_match default_config w (py ''pl'')) words)
    \<and> entries = filter (\<lambda>e. is_plain_match default_config (acp_word e) (py ''pl''))
                   [(py ''f'', py ''plot it'', py ''(a, b)'', []), (py ''f'', py ''aplenty'', [], [])]
                @ filter (\<lambda>e. \<not> is_plain_match default_config (acp_word e) (py ''pl''))
                   [(py ''f'', py ''plot it'', py ''(a, b)'', []), (py ''f'', py ''aplenty'', [], [])]
    \<and> [py ''f|plot it|(a, b)'' @ [9], py ''f|aplenty|'' @ [9]] = map acp_format entries
    \<and> subseq [(py ''f'', py ''plot it'', py ''(a, b)'', []), (py ''f'', py ''aplenty'', [], [])]
        (acp_file_entries example_host example_editor)
    \<and> (\<forall>i j. i < length entries \<and> j < length entries
             \<and> is_plain_match default_config (acp_word (entries ! i)) (py ''pl'')
             \<and> \<not> is_plain_match default_config (acp_word (entries ! j)) (py ''pl'')
             \<longrightarrow> i < j)
    \<and> filter (\<lambda>e. is_plain_match default_config (acp_word e) (py ''pl'')) entries
        = filter (\<lambda>e. is_plain_match default_config (acp_word e) (py ''pl''))
            [(py ''f'', py ''plot it'', py ''(a, b)'', []), (py ''f'', py ''aplenty'', [], [])]
    \<and> filter (\<lambda>e. \<not> is_plain_match default_config (acp_word e) (py ''pl'')) entries
        = filter (\<lambda>e. \<not> is_plain_match default_config (acp_word e) (py ''pl''))
            [(py ''f'', py ''plot it'', py ''(a, b)'', []), (py ''f'', py ''aplenty'', [], [])])"
  by (intro conjI example_result example_kept
        completions_plain_first [OF example_result example_kept])

text \<open>
  C5 as stated fails: the order within a group is not alphabetical.  On the line
  \<open>pZebra papple p\<close>, with the cursor at its end and the default options, \<open>re.findall\<close>
  gives \<open>pZebra\<close> and \<open>papple\<close> for the pattern \<^verbatim>\<open>\$?\bp[\w]{2,}\<close> of the request.  Both
  are plain matches of the typed prefix \<open>p\<close>, and the request returns \<open>pZebra\<close> before
  \<open>papple\<close>: \<open>Z\<close> has a smaller code point than \<open>a\<close>.
\<close>

theorem completions_order_counterexample:
  "get_completions
     (line_host (py ''pZebra papple p'')
        [([92] @ py ''$?'' @ [92] @ py ''bp['' @ [92] @ py ''w]{2,}'', [py ''pZebra'', py ''papple''])])
     default_config (line_editor (py ''pZebra papple p'')) 15 0 True False
   = Inr (Some ([py ''text|pZebra'', py ''text|papple''], [], py ''p'', []))
   \<and> is_plain_match default_config (py ''pZebra'') (py ''p'')
   \<and> is_plain_match default_config (py ''papple'') (py ''p'')
   \<and> str_lower (py ''papple'') < str_lower (py ''pZebra'')
   \<and> py ''pZebra'' < py ''papple''"
  using zebra_result zebra_plain zebra_order by (intro conjI) simp_all

section \<open>What the candidates exclude\<close>

text \<open>
  C6. When a request returns a result, the buffer candidates are the decorated words of
  the list \<open>words\<close> that \<open>get_completions\<close> has at line 355, each a token of a scanned tab,
  and the dictionary candidates are the formatted entries \<open>kept\<close> that \<open>get_acp_words\<close>
  keeps, the plain matches first.  No word of \<open>words\<close> and no word of an entry of \<open>kept\<close>
  is the typed left fragment or the left fragment followed by the right one, and no word
  of \<open>words\<close> is the word of an entry of \<open>kept\<close>.
\<close>

theorem completions_exclude_typed:
  assumes "get_completions h cfg ed_self x0 y0 with_acp ignore_lexer
           = Inr (Some (words_decorated, acp_words, word1, word2))"
    and "kept = (if with_acp then acp_kept_entries h cfg ed_self word1 word2 else [])"
  shows "\<exists>words words_by_tabs tab_titles lx eds.
      get_completions_words h cfg ed_self x0 y0 with_acp ignore_lexer
        = Inr (Some (words, words_by_tabs, tab_titles, acp_words, word1, word2))
    \<and> words_decorated = map (decorate cfg words_by_tabs tab_titles) words
    \<and> ed_lexer_file ed_self = Some lx
    \<and> get_editors cfg h ed_self lx = Some eds
    \<and> map_raise (\<lambda>e. get_words_list cfg h e
                       (get_regex cfg [word1 ! 0] (host_nonword_chars h ed_self lx))) eds
        = Inr words_by_tabs
    \<and> tab_titles = map (\<lambda>e. str_replace (ed_tab_title e) (py ''|'') (py ''/'')) eds
    \<and> set words \<subseteq> set (concat words_by_tabs)
    \<and> acp_words = map acp_format
                     (filter (\<lambda>e. is_plain_match cfg (acp_word e) word1) kept
                      @ filter (\<lambda>e. \<not> is_plain_match cfg (acp_word e) word1) kept)
    \<and> set kept \<subseteq> set (acp_file_entries h ed_self)
    \<and> (\<forall>w\<in>set words. w \<noteq> word1 \<and> w \<noteq> word1 @ word2 \<and> w \<notin> acp_word ` set kept)
    \<and> (\<forall>e\<in>set kept. acp_word e \<noteq> word1 \<and> acp_word e \<noteq> word1 @ word2)"
proof -
  let ?P = "\<lambda>w. is_plain_match cfg w word1"
  from request_result [OF assms] obtain words wbt tt lx eds base where
    gcw: "get_completions_words h cfg ed_self x0 y0 with_acp ignore_lexer
          = Inr (Some (words, wbt, tt, acp_words, word1, word2))"
    and wd: "words_decorated = map (decorate cfg wbt tt) words"
    and lx: "ed_lexer_file ed_self = Some lx"
    and eds: "get_editors cfg h ed_self lx = Some eds"
    and wbt: "map_raise (\<lambda>e. get_words_list cfg h e
                (get_regex cfg [word1 ! 0] (host_nonword_chars h ed_self lx))) eds = Inr wbt"
    and tt: "tt = map (\<lambda>e. str_replace (ed_tab_title e) (py ''|'') (py ''/'')) eds"
    and words: "words = filter ?P base @ filter (\<lambda>w. \<not> ?P w) base"
    and base: "set base \<subseteq> set (concat wbt)"
      "\<forall>w\<in>set base. w \<notin> acp_word ` set kept \<and> w \<noteq> word1 \<and> w \<noteq> word1 @ word2"
    and aw: "acp_words = map acp_format
                     (filter (\<lambda>e. is_plain_match cfg (acp_word e) word1) kept
                      @ filter (\<lambda>e. \<not> is_plain_match cfg (acp_word e) word1) kept)"
    and kept: "subseq kept (acp_file_entries h ed_self)"
    and ne: "\<forall>e\<in>set kept. acp_word e \<noteq> word1 \<and> acp_word e \<noteq> word1 @ word2"
    by blast
  have sw: "set words = set base"
    unfolding words by auto
  have sub: "set words \<subseteq> set (concat wbt)"
    unfolding sw by (rule base(1))
  from kept have ks: "set kept \<subseteq> set (acp_file_entries h ed_self)"
    by (auto dest: list_emb_set)
  have b: "\<forall>w\<in>set words. w \<noteq> word1 \<and> w \<noteq> word1 @ word2 \<and> w \<notin> acp_word ` set kept"
    unfolding sw using base(2) by blast
  show ?thesis
    by (intro exI [of _ words] exI [of _ wbt] exI [of _ tt] exI [of _ lx] exI [of _ eds]
          conjI gcw wd lx eds wbt tt sub aw ks b ne)
qed

theorem completions_exclude_typed_witness:
  "get_completions example_host default_config example_editor 16 0
     True False
   = Inr (Some ([py ''text|please'', py ''text|plenty''],
                [py ''f|plot it|(a, b)'' @ [9], py ''f|aplenty|'' @ [9]], py ''pl'', []))
   \<and> [(py ''f'', py ''plot it'', py ''(a, b)'', []), (py ''f'', py ''aplenty'', [], [])]
     = (if True then acp_kept_entries example_host default_config example_editor (py ''pl'') [] else [])
   \<and> (\<exists>words words_by_tabs tab_titles lx eds.
      get_completions_words example_host default_config example_editor 16 0 True False
        = Inr (Some (words, words_by_tabs, tab_titles,
                     [py ''f|plot it|(a, b)'' @ [9], py ''f|aplenty|'' @ [9]], py ''pl'', []))
    \<and> [py ''text|please'', py ''text|plenty'']
        = map (decorate default_config words_by_tabs tab_titles) words
    \<and> ed_lexer_file example_editor = Some lx
    \<and> get_editors default_config example_host example_editor lx = Some eds
    \<and> map_raise (\<lambda>e. get_words_list default_config example_host e
                       (get_regex default_config [py ''pl'' ! 0]
                          (host_nonword_chars example_host example_editor lx))) eds
        = Inr words_by_tabs
    \<and> tab_titles = map (\<lambda>e. str_replace (ed_tab_title e) (py ''|'') (py ''/'')) eds
    \<and> set words \<subseteq> set (concat words_by_tabs)
    \<and> [py ''f|plot it|(a, b)'' @ [9], py ''f|aplenty|'' @ [9]]
        = map acp_format
            (filter (\<lambda>e. is_plain_match default_config (acp_word e) (py ''pl''))
               [(py ''f'', py ''plot it'', py ''(a, b)'', []), (py ''f'', py ''aplenty'', [], [])]
             @ filter (\<lambda>e. \<not> is_plain_match default_config (acp_word e) (py ''pl''))
               [(py ''f'', py ''plot it'', py ''(a, b)'', []), (py ''f'', py ''aplenty'', [], [])])
    \<and> set [(py ''f'', py ''plot it'', py ''(a, b)'', []), (py ''f'', py ''aplenty'', [], [])]
        \<subseteq> set (acp_file_entries example_host example_editor)
    \<and> (\<forall>w\<in>set words. w \<noteq> py ''pl'' \<and> w \<noteq> py ''pl'' @ []
          \<and> w \<notin> acp_word ` set [(py ''f'', py ''plot it'', py ''(a, b)'', []),
                                  (py ''f'', py ''aplenty'', [], [])])
    \<and> (\<forall>e\<in>set [(py ''f'', py ''plot it'', py ''(a, b)'', []), (py ''f'', py ''aplenty'', [], [])].
          acp_word e \<noteq> py ''pl'' \<and> acp_word e \<noteq> py ''pl'' @ []))"
  by (intro conjI example_result example_kept
        completions_exclude_typed [OF example_result example_kept])

end
